theory Spec2Isabelle
  imports Complex_Main "HOL-Library.AList" "HOL-Library.Multiset"
begin

section \<open>Python values, exceptions and numpy sequences\<close>

text \<open>
  The exceptions the modelled code can raise. A function that can raise returns
  \<open>error + 'r\<close> (\<open>Inl\<close> the exception); a function with a \<open>while True\<close> loop
  returns an \<open>option\<close> of that, \<open>None\<close> meaning that the loop was still running when
  the supplied random draws (or the fuel) were used up.
\<close>

datatype error =
  TypeError | ValueError | IndexError | AttributeError | KeyError | ZeroDivisionError

text \<open>
  The two kinds of sequence object that \<open>gene_pool\<close> stores in its private attributes:
  a Python \<open>list\<close> (what \<open>__init__\<close> creates and \<open>append\<close> extends) and a one-dimensional
  numpy \<open>ndarray\<close> (what \<open>np.array(...)\<close> and indexing by a boolean mask produce).
\<close>

datatype 'v pyseq = PyList "'v list" | NdArray "'v list"

text \<open>\<open>np.array(x)\<close>: a fresh array holding the elements of \<open>x\<close>.\<close>

fun np_array :: "'v pyseq \<Rightarrow> 'v list" where
  "np_array (PyList xs) = xs"
| "np_array (NdArray xs) = xs"

text \<open>
  \<open>a[selector]\<close> for an ndarray \<open>a\<close> and a boolean ndarray \<open>selector\<close>: the elements at
  the positions where the mask is true, in order; numpy raises IndexError when the
  mask's length is not the array's.
\<close>

definition ndarray_getitem :: "'v list \<Rightarrow> bool list \<Rightarrow> error + 'v list" where
  "ndarray_getitem a selector =
     (if length selector = length a
      then Inr (map snd (filter fst (zip selector a)))
      else Inl IndexError)"

text \<open>
  \<open>x[selector]\<close> for whatever object the attribute holds. A Python list accepts only
  integers and slices as index: a boolean ndarray is neither (its \<open>__index__\<close>
  raises), so the list raises TypeError.
\<close>

fun getitem :: "'v pyseq \<Rightarrow> bool list \<Rightarrow> error + 'v list" where
  "getitem (PyList xs) selector = Inl TypeError"
| "getitem (NdArray a) selector = ndarray_getitem a selector"

section \<open>The object store\<close>

text \<open>
  A \<open>gene_pool\<close> instance holds two references, \<open>self.__alleles\<close> and
  \<open>self.__alleles_indexes\<close>, to sequence objects. Instances and sequence objects live in
  a store, so that two instances sharing a sequence object is expressible; \<open>fresh\<close> is
  the next unused address.
\<close>

record gene_pool =
  priv_alleles :: nat
  priv_alleles_indexes :: nat

record ('a, 'p) heap =
  allele_objs :: "nat \<Rightarrow> 'a pyseq"
  index_objs :: "nat \<Rightarrow> 'p pyseq"
  instances :: "nat \<Rightarrow> gene_pool"
  fresh :: nat

definition empty_heap :: "('a, 'p) heap" where
  "empty_heap =
     \<lparr>allele_objs = (\<lambda>_. PyList []), index_objs = (\<lambda>_. PyList []),
      instances = (\<lambda>_. \<lparr>priv_alleles = 0, priv_alleles_indexes = 0\<rparr>), fresh = 0\<rparr>"

section \<open>gene\_pool.py\<close>

text \<open>The properties \<open>n_allelles\<close>, \<open>alleles_indexes\<close> and \<open>alleles\<close>.\<close>

definition n_allelles :: "('a, 'p) heap \<Rightarrow> nat \<Rightarrow> nat" where
  "n_allelles h self = length (np_array (allele_objs h (priv_alleles (instances h self))))"

definition alleles_indexes :: "('a, 'p) heap \<Rightarrow> nat \<Rightarrow> 'p list" where
  "alleles_indexes h self = np_array (index_objs h (priv_alleles_indexes (instances h self)))"

definition alleles :: "('a, 'p) heap \<Rightarrow> nat \<Rightarrow> 'a list" where
  "alleles h self = np_array (allele_objs h (priv_alleles (instances h self)))"

text \<open>
  \<open>add_allele\<close>: \<open>append\<close> extends a Python list in place (an ndarray has no \<open>append\<close>:
  AttributeError). A missing index is drawn from \<open>np.random.random()\<close>, here the head of
  the list \<open>nprand\<close> of numbers numpy's generator will deliver. The store is returned
  also when the call raises: what was appended before stays appended.
\<close>

definition add_allele ::
  "('a, 'p) heap \<Rightarrow> nat \<Rightarrow> 'a \<Rightarrow> 'p option \<Rightarrow> 'p list
     \<Rightarrow> (error + unit) option \<times> ('a, 'p) heap \<times> 'p list" where
  "add_allele h self allele index nprand =
     (let inst = instances h self in
      case allele_objs h (priv_alleles inst) of
        NdArray a \<Rightarrow> (Some (Inl AttributeError), h, nprand)
      | PyList xs \<Rightarrow>
          (let h1 = h\<lparr>allele_objs := (allele_objs h)(priv_alleles inst := PyList (xs @ [allele]))\<rparr>
           in case (case index of
                      Some i \<Rightarrow> Some (i, nprand)
                    | None \<Rightarrow> (case nprand of [] \<Rightarrow> None | r # rs \<Rightarrow> Some (r, rs))) of
                None \<Rightarrow> (None, h1, nprand)
              | Some (i, nprand') \<Rightarrow>
                  (case index_objs h1 (priv_alleles_indexes inst) of
                     NdArray a \<Rightarrow> (Some (Inl AttributeError), h1, nprand')
                   | PyList ys \<Rightarrow>
                       (Some (Inr ()),
                        h1\<lparr>index_objs :=
                             (index_objs h1)(priv_alleles_indexes inst := PyList (ys @ [i]))\<rparr>,
                        nprand'))))"

text \<open>The loop of \<open>__init__\<close> over \<open>zip(alleles, indexes)\<close>.\<close>

fun add_alleles ::
  "('a, 'p) heap \<Rightarrow> nat \<Rightarrow> ('a \<times> 'p option) list \<Rightarrow> 'p list
     \<Rightarrow> (error + unit) option \<times> ('a, 'p) heap \<times> 'p list" where
  "add_alleles h self [] nprand = (Some (Inr ()), h, nprand)"
| "add_alleles h self ((allele, index) # rest) nprand =
     (case add_allele h self allele index nprand of
        (Some (Inr u), h', nprand') \<Rightarrow> add_alleles h' self rest nprand'
      | (r, h', nprand') \<Rightarrow> (r, h', nprand'))"

text \<open>
  \<open>__init__\<close>: the new instance gets two new, empty Python lists; then the alleles are
  added one by one. The result is the address of the new instance.
\<close>

definition gene_pool_init ::
  "('a, 'p) heap \<Rightarrow> 'a list option \<Rightarrow> 'p option list option \<Rightarrow> 'p list
     \<Rightarrow> (error + nat) option \<times> ('a, 'p) heap \<times> 'p list" where
  "gene_pool_init h alleles_arg indexes_arg nprand =
     (let self = fresh h;
          h0 = h\<lparr>allele_objs := (allele_objs h)(fresh h + 1 := PyList []),
                 index_objs := (index_objs h)(fresh h + 2 := PyList []),
                 instances := (instances h)
                   (self := \<lparr>priv_alleles = fresh h + 1, priv_alleles_indexes = fresh h + 2\<rparr>),
                 fresh := fresh h + 3\<rparr>
      in case alleles_arg of
           None \<Rightarrow> (Some (Inr self), h0, nprand)
         | Some als \<Rightarrow>
             (let indexes = (case indexes_arg of
                               None \<Rightarrow> replicate (length als) None
                             | Some ixs \<Rightarrow> ixs)
              in case add_alleles h0 self (zip als indexes) nprand of
                   (Some (Inr u), h', nprand') \<Rightarrow> (Some (Inr self), h', nprand')
                 | (Some (Inl e), h', nprand') \<Rightarrow> (Some (Inl e), h', nprand')
                 | (None, h', nprand') \<Rightarrow> (None, h', nprand')))"

text \<open>\<open>__gene_selector\<close>: the boolean mask of the positions inside \<open>[start, stop]\<close>.\<close>

definition gene_selector :: "('a, 'p::linorder) heap \<Rightarrow> nat \<Rightarrow> 'p \<Rightarrow> 'p \<Rightarrow> bool list" where
  "gene_selector h self start stop =
     map (\<lambda>x. x \<ge> start \<and> x \<le> stop) (alleles_indexes h self)"

text \<open>
  \<open>__getslice__\<close> indexes the array \<open>self.alleles\<close> and then the private attribute
  \<open>self.__alleles_indexes\<close> itself (not the property \<open>self.alleles_indexes\<close>), left to
  right.
\<close>

definition getslice ::
  "('a, 'p::linorder) heap \<Rightarrow> nat \<Rightarrow> 'p \<Rightarrow> 'p \<Rightarrow> error + ('a list \<times> 'p list)" where
  "getslice h self i j =
     (let selector = gene_selector h self i j in
      case ndarray_getitem (alleles h self) selector of
        Inl e \<Rightarrow> Inl e
      | Inr a \<Rightarrow>
          (case getitem (index_objs h (priv_alleles_indexes (instances h self))) selector of
             Inl e \<Rightarrow> Inl e
           | Inr p \<Rightarrow> Inr (a, p)))"

definition get_genes_outside_range ::
  "('a, 'p::linorder) heap \<Rightarrow> nat \<Rightarrow> 'p \<Rightarrow> 'p \<Rightarrow> error + ('a list \<times> 'p list)" where
  "get_genes_outside_range h self start stop =
     (let selector = map Not (gene_selector h self start stop) in
      case ndarray_getitem (alleles h self) selector of
        Inl e \<Rightarrow> Inl e
      | Inr a \<Rightarrow>
          (case ndarray_getitem (alleles_indexes h self) selector of
             Inl e \<Rightarrow> Inl e
           | Inr p \<Rightarrow> Inr (a, p)))"

text \<open>\<open>copy\<close>: a new instance built by \<open>__init__\<close> from the two arrays.\<close>

definition copy ::
  "('a, 'p) heap \<Rightarrow> nat \<Rightarrow> 'p list \<Rightarrow> (error + nat) option \<times> ('a, 'p) heap \<times> 'p list" where
  "copy h self nprand =
     gene_pool_init h (Some (alleles h self)) (Some (map Some (alleles_indexes h self))) nprand"

text \<open>
  \<open>remove_slice\<close>: two assignments. The first binds \<open>self.__alleles\<close> to a new array; the
  second indexes the private attribute \<open>self.__alleles_indexes\<close> itself. When the second
  raises, the first assignment has already happened, so the store is returned with the
  result.
\<close>

definition remove_slice ::
  "('a, 'p::linorder) heap \<Rightarrow> nat \<Rightarrow> 'p \<Rightarrow> 'p \<Rightarrow> (error + unit) \<times> ('a, 'p) heap" where
  "remove_slice h self start stop =
     (let selector = map Not (gene_selector h self start stop) in
      case ndarray_getitem (alleles h self) selector of
        Inl e \<Rightarrow> (Inl e, h)
      | Inr a \<Rightarrow>
          (let h1 = h\<lparr>allele_objs := (allele_objs h)(fresh h := NdArray a),
                      instances := (instances h)
                        (self := (instances h self)\<lparr>priv_alleles := fresh h\<rparr>),
                      fresh := fresh h + 1\<rparr>
           in case getitem (index_objs h1 (priv_alleles_indexes (instances h1 self))) selector of
                Inl e \<Rightarrow> (Inl e, h1)
              | Inr p \<Rightarrow>
                  (Inr (),
                   h1\<lparr>index_objs := (index_objs h1)(fresh h1 := NdArray p),
                      instances := (instances h1)
                        (self := (instances h1 self)\<lparr>priv_alleles_indexes := fresh h1\<rparr>),
                      fresh := fresh h1 + 1\<rparr>)))"

text \<open>The content of an instance: its (allele, position) pairs, in order.\<close>

definition entries :: "('a, 'p) heap \<Rightarrow> nat \<Rightarrow> ('a \<times> 'p) list" where
  "entries h self = zip (alleles h self) (alleles_indexes h self)"

section \<open>evolve.py\<close>

subsection \<open>Candidates, the candidate class and the engine\<close>

text \<open>
  The \<open>genes\<close> attribute of a candidate is used in two ways by the engine: as a
  \<open>dict\<close> from gene to allele (\<open>generate_random_parent\<close>, \<open>mutate\<close>) and as a
  \<open>gene_pool\<close> instance (\<open>cross_over\<close>). Both kinds of object are values of
  \<open>genes_obj\<close>; an operation the object does not have raises. A \<open>dict\<close> is an
  association list with distinct keys, in the dict's iteration order.
\<close>

datatype ('g, 'a) genes_obj = Dict "('g \<times> 'a) list" | Pool nat

record ('g, 'a) evolvable =
  genes :: "('g, 'a) genes_obj"
  cache_attrs :: bool

text \<open>
  The candidate class is supplied by the caller: its two ways of construction
  (\<open>evolvable_class(gene_pool.keys())\<close> and \<open>evolvable_class(*new_genes)\<close>) and its three
  methods, which are functions of the candidate's genes.
\<close>

record ('g, 'a, 'p, 'f, 'k) evolvable_class =
  from_names :: "'g list \<Rightarrow> ('g, 'a) evolvable"
  from_arrays :: "'a list \<Rightarrow> 'p list \<Rightarrow> ('g, 'a) evolvable"
  fitness_level :: "('g, 'a) genes_obj \<Rightarrow> 'f"
  can_survive :: "('g, 'a) genes_obj \<Rightarrow> bool"
  unique :: "('g, 'a) genes_obj \<Rightarrow> 'k"

text \<open>The fields of \<open>Evolve\<close>; \<open>self.gene_pool\<close> is a dict from gene to its list of alleles.\<close>

record ('g, 'a, 'p, 'f, 'k) evolve =
  gene_pool :: "('g \<times> 'a list) list"
  population :: "('g, 'a) evolvable list"
  best :: "('g, 'a) evolvable list"
  evolvable_class :: "('g, 'a, 'p, 'f, 'k) evolvable_class"

subsection \<open>set\_best and best\_parents\<close>

text \<open>The loop of \<open>set_best\<close>: \<open>unique\<close> is the set of keys seen, \<open>best\<close> the entries kept.\<close>

fun set_best_loop :: "('c \<Rightarrow> 'k) \<Rightarrow> 'c list \<Rightarrow> 'k set \<Rightarrow> 'c list \<Rightarrow> 'c list" where
  "set_best_loop key [] seen kept = kept"
| "set_best_loop key (v # values) seen kept =
     (if key v \<notin> seen
      then set_best_loop key values (insert (key v) seen) (kept @ [v])
      else set_best_loop key values seen kept)"

text \<open>
  \<open>sorted(xs, key=k, reverse=True)\<close>: Python reverses the list, sorts it stably in
  ascending order and reverses the result, so entries with equal keys keep their order.
\<close>

definition sorted_reverse :: "('c \<Rightarrow> 'f::linorder) \<Rightarrow> 'c list \<Rightarrow> 'c list" where
  "sorted_reverse key xs = rev (sort_key key (rev xs))"

text \<open>\<open>xs[:n]\<close>: a negative \<open>n\<close> counts from the end.\<close>

definition slice_to :: "int \<Rightarrow> 'c list \<Rightarrow> 'c list" where
  "slice_to n xs = (if 0 \<le> n then take (nat n) xs else take (nat (int (length xs) + n)) xs)"

definition set_best ::
  "('g, 'a, 'p, 'f::linorder, 'k) evolve \<Rightarrow> int \<Rightarrow> ('g, 'a, 'p, 'f, 'k) evolve" where
  "set_best self n_best =
     (let values = best self @ population self;
          kept = set_best_loop (\<lambda>v. unique (evolvable_class self) (genes v)) values {} []
      in self\<lparr>best :=
           slice_to n_best
             (sorted_reverse (\<lambda>k. fitness_level (evolvable_class self) (genes k)) kept)\<rparr>)"

definition best_parents ::
  "('g, 'a, 'p, 'f::linorder, 'k) evolve \<Rightarrow> int \<Rightarrow> ('g, 'a) evolvable list" where
  "best_parents self n =
     slice_to n
       (sorted_reverse (\<lambda>k. fitness_level (evolvable_class self) (genes k)) (population self))"

subsection \<open>generate\_random\_parent\<close>

text \<open>
  The random source of \<open>evolve.py\<close> is a parameter: \<open>picks\<close> is the list of numbers the
  generator will deliver to \<open>random.choice\<close> and \<open>random.randint\<close>, which reduce a number
  to the range asked for. \<open>random.choice\<close> raises IndexError on an empty sequence.

  The inner loop of \<open>generate_random_parent\<close>: draw an allele until one is found that is
  not among \<open>parent.genes.values()\<close>, then store it under the gene.
\<close>

fun assign_allele ::
  "'g \<Rightarrow> 'a list \<Rightarrow> ('g, 'a) genes_obj \<Rightarrow> nat list
     \<Rightarrow> (error + ('g, 'a) genes_obj \<times> nat list) option" where
  "assign_allele gene allele gs [] = (if allele = [] then Some (Inl IndexError) else None)"
| "assign_allele gene allele gs (r # picks) =
     (if allele = [] then Some (Inl IndexError)
      else (case gs of
              Pool p \<Rightarrow> Some (Inl AttributeError)
            | Dict d \<Rightarrow>
                (let random_allele = allele ! (r mod length allele)
                 in if random_allele \<notin> set (map snd d)
                    then Some (Inr (Dict (AList.update gene random_allele d), picks))
                    else assign_allele gene allele gs picks)))"

text \<open>The \<open>for\<close> loop over \<open>self.gene_pool.iteritems()\<close>.\<close>

fun assign_genes ::
  "('g \<times> 'a list) list \<Rightarrow> ('g, 'a) genes_obj \<Rightarrow> nat list
     \<Rightarrow> (error + ('g, 'a) genes_obj \<times> nat list) option" where
  "assign_genes [] gs picks = Some (Inr (gs, picks))"
| "assign_genes ((gene, allele) # items) gs picks =
     (case assign_allele gene allele gs picks of
        None \<Rightarrow> None
      | Some (Inl e) \<Rightarrow> Some (Inl e)
      | Some (Inr (gs', picks')) \<Rightarrow> assign_genes items gs' picks')"

text \<open>
  The outer \<open>while True\<close>: the same \<open>parent\<close> object goes through the \<open>for\<close> loop again
  until it can survive. With an empty gene pool a pass draws nothing, so the loop is
  bounded by \<open>fuel\<close>, the number of passes allowed.
\<close>

fun generate_loop ::
  "nat \<Rightarrow> ('g, 'a, 'p, 'f, 'k) evolvable_class \<Rightarrow> ('g \<times> 'a list) list \<Rightarrow> ('g, 'a) evolvable
     \<Rightarrow> nat list \<Rightarrow> (error + ('g, 'a) evolvable \<times> nat list) option" where
  "generate_loop 0 cls pool parent picks = None"
| "generate_loop (Suc fuel) cls pool parent picks =
     (case assign_genes pool (genes parent) picks of
        None \<Rightarrow> None
      | Some (Inl e) \<Rightarrow> Some (Inl e)
      | Some (Inr (gs, picks')) \<Rightarrow>
          if can_survive cls gs
          then Some (Inr (parent\<lparr>genes := gs, cache_attrs := True\<rparr>, picks'))
          else generate_loop fuel cls pool (parent\<lparr>genes := gs\<rparr>) picks')"

definition generate_random_parent ::
  "('g, 'a, 'p, 'f, 'k) evolve \<Rightarrow> nat \<Rightarrow> nat list
     \<Rightarrow> (error + ('g, 'a) evolvable \<times> nat list) option" where
  "generate_random_parent self fuel picks =
     generate_loop fuel (evolvable_class self) (gene_pool self)
       (from_names (evolvable_class self) (map fst (gene_pool self))) picks"

subsection \<open>mutate\<close>

text \<open>\<open>random.randint(a, b)\<close>: an integer of the closed range, ValueError when it is empty.\<close>

definition randint :: "int \<Rightarrow> int \<Rightarrow> nat list \<Rightarrow> (error + int \<times> nat list) option" where
  "randint a b picks =
     (if b < a then Some (Inl ValueError)
      else (case picks of
              [] \<Rightarrow> None
            | r # picks' \<Rightarrow> Some (Inr (a + int r mod (b - a + 1), picks'))))"

text \<open>
  The \<open>while True\<close> loop of one swap: a random gene of the pool, a random allele of that
  gene, until the allele is not among the candidate's values.
\<close>

fun mutate_swap ::
  "('g \<times> 'a list) list \<Rightarrow> ('g, 'a) genes_obj \<Rightarrow> nat list
     \<Rightarrow> (error + ('g, 'a) genes_obj \<times> nat list) option" where
  "mutate_swap pool gs [] = (if pool = [] then Some (Inl IndexError) else None)"
| "mutate_swap pool gs (r1 # picks1) =
     (if pool = [] then Some (Inl IndexError)
      else (let random_gene = map fst pool ! (r1 mod length pool)
            in case map_of pool random_gene of
                 None \<Rightarrow> Some (Inl KeyError)
               | Some allele \<Rightarrow>
                   if allele = [] then Some (Inl IndexError)
                   else (case picks1 of
                           [] \<Rightarrow> None
                         | r2 # picks2 \<Rightarrow>
                             (case gs of
                                Pool p \<Rightarrow> Some (Inl AttributeError)
                              | Dict d \<Rightarrow>
                                  (let random_allele = allele ! (r2 mod length allele)
                                   in if random_allele \<notin> set (map snd d)
                                      then Some (Inr (Dict (AList.update random_gene random_allele d),
                                                      picks2))
                                      else mutate_swap pool gs picks2)))))"

text \<open>The \<open>for i in range(swap)\<close> loop.\<close>

fun mutate_swaps ::
  "nat \<Rightarrow> ('g \<times> 'a list) list \<Rightarrow> ('g, 'a) genes_obj \<Rightarrow> nat list
     \<Rightarrow> (error + ('g, 'a) genes_obj \<times> nat list) option" where
  "mutate_swaps 0 pool gs picks = Some (Inr (gs, picks))"
| "mutate_swaps (Suc n) pool gs picks =
     (case mutate_swap pool gs picks of
        None \<Rightarrow> None
      | Some (Inl e) \<Rightarrow> Some (Inl e)
      | Some (Inr (gs', picks')) \<Rightarrow> mutate_swaps n pool gs' picks')"

text \<open>\<open>mutate\<close> changes the candidate in place; the model returns the changed candidate.\<close>

definition mutate ::
  "('g \<times> 'a list) list \<Rightarrow> ('g, 'a) evolvable \<Rightarrow> int \<Rightarrow> int \<Rightarrow> nat list
     \<Rightarrow> (error + ('g, 'a) evolvable \<times> nat list) option" where
  "mutate pool evolvable n1 n2 picks =
     (case randint n1 n2 picks of
        None \<Rightarrow> None
      | Some (Inl e) \<Rightarrow> Some (Inl e)
      | Some (Inr (swap, picks')) \<Rightarrow>
          (case mutate_swaps (nat swap) pool (genes evolvable) picks' of
             None \<Rightarrow> None
           | Some (Inl e) \<Rightarrow> Some (Inl e)
           | Some (Inr (gs, picks'')) \<Rightarrow> Some (Inr (evolvable\<lparr>genes := gs\<rparr>, picks''))))"

subsection \<open>cross\_over\<close>

text \<open>
  \<open>evolve.py\<close> imports the module \<open>random\<close> of the standard library. Its \<open>random()\<close> takes
  no argument and its \<open>randint(a, b)\<close> exactly two: a call with another number of
  arguments raises TypeError before anything is drawn. \<open>args\<close> is the list of the
  arguments of the call; \<open>floats\<close> is the list of numbers \<open>random()\<close> will deliver.
\<close>

definition random_random :: "int list \<Rightarrow> 'p list \<Rightarrow> (error + 'p \<times> 'p list) option" where
  "random_random args floats =
     (if args \<noteq> [] then Some (Inl TypeError)
      else (case floats of [] \<Rightarrow> None | r # floats' \<Rightarrow> Some (Inr (r, floats'))))"

definition random_randint :: "int list \<Rightarrow> nat list \<Rightarrow> (error + int \<times> nat list) option" where
  "random_randint args picks =
     (case args of [a, b] \<Rightarrow> randint a b picks | _ \<Rightarrow> Some (Inl TypeError))"

text \<open>\<open>x[i]\<close> for a float \<open>x\<close>, which is what \<open>random()\<close> returns: a float has no items.\<close>

definition float_item :: "'p \<Rightarrow> int \<Rightarrow> error + 'p" where
  "float_item x i = Inl TypeError"

text \<open>
  \<open>genes[a:b]\<close> with float bounds. Python 2 hands a slice whose bounds are not integers
  to \<open>__getitem__\<close> and never to \<open>__getslice__\<close>; \<open>gene_pool\<close> defines no \<open>__getitem__\<close>,
  and a \<open>dict\<close> cannot hash a slice. Both raise TypeError.
\<close>

fun genes_slice :: "('g, 'a) genes_obj \<Rightarrow> 'p \<Rightarrow> 'p \<Rightarrow> error + ('a list \<times> 'p list)" where
  "genes_slice (Dict d) a b = Inl TypeError"
| "genes_slice (Pool self) a b = Inl TypeError"

text \<open>
  \<open>parent.genes[gene_range[0]:gene_range[1]]\<close>: the two bounds are computed, then the
  slice is taken.
\<close>

definition parent_slice ::
  "('g, 'a) evolvable \<Rightarrow> 'p \<Rightarrow> error + ('a list \<times> 'p list)" where
  "parent_slice parent gene_range =
     (case float_item gene_range 0 of
        Inl e \<Rightarrow> Inl e
      | Inr a \<Rightarrow>
          (case float_item gene_range 1 of
             Inl e \<Rightarrow> Inl e
           | Inr b \<Rightarrow> genes_slice (genes parent) a b))"

text \<open>
  \<open>parent.genes.get_genes_outside_range(gene_range[0], gene_range[1])\<close>: the method is
  looked up first (a \<open>dict\<close> has none: AttributeError), then the two arguments are
  computed, then the method is called.
\<close>

definition parent_outside_range ::
  "('a, 'p::linorder) heap \<Rightarrow> ('g, 'a) evolvable \<Rightarrow> 'p \<Rightarrow> error + ('a list \<times> 'p list)" where
  "parent_outside_range h parent gene_range =
     (case genes parent of
        Dict d \<Rightarrow> Inl AttributeError
      | Pool self \<Rightarrow>
          (case float_item gene_range 0 of
             Inl e \<Rightarrow> Inl e
           | Inr a \<Rightarrow>
               (case float_item gene_range 1 of
                  Inl e \<Rightarrow> Inl e
                | Inr b \<Rightarrow> get_genes_outside_range h self a b)))"

text \<open>A list comprehension \<open>[f(x) for x in xs]\<close>: the first exception ends it.\<close>

fun comprehension :: "('x \<Rightarrow> error + 'y) \<Rightarrow> 'x list \<Rightarrow> error + 'y list" where
  "comprehension f [] = Inr []"
| "comprehension f (x # xs) =
     (case f x of
        Inl e \<Rightarrow> Inl e
      | Inr y \<Rightarrow> (case comprehension f xs of Inl e \<Rightarrow> Inl e | Inr ys \<Rightarrow> Inr (y # ys)))"

text \<open>\<open>xs[i]\<close> on a Python list: a negative index counts from the end.\<close>

definition list_item :: "'x list \<Rightarrow> int \<Rightarrow> error + 'x" where
  "list_item xs i =
     (let n = int (length xs); j = (if i < 0 then n + i else i)
      in if 0 \<le> j \<and> j < n then Inr (xs ! nat j) else Inl IndexError)"

text \<open>
  \<open>a + b\<close> on two one-dimensional ndarrays is numpy's element-wise addition with
  broadcasting (an array of one element is stretched), not concatenation; shapes that do
  not fit raise ValueError.
\<close>

definition ndarray_add :: "'v::plus list \<Rightarrow> 'v list \<Rightarrow> error + 'v list" where
  "ndarray_add a b =
     (if length a = length b then Inr (map (\<lambda>(x, y). x + y) (zip a b))
      else if length a = 1 then Inr (map (\<lambda>y. hd a + y) b)
      else if length b = 1 then Inr (map (\<lambda>x. x + hd b) a)
      else Inl ValueError)"

text \<open>
  One pass through the body of the \<open>while True\<close> loop of \<open>cross_over\<close>, statement by
  statement. The result is the exception that ends the pass, or the child when it can
  survive, or no child when the loop is to go round again; with it come the draws not
  yet used.
\<close>

definition cross_over_attempt ::
  "('g, 'a::plus, 'p::{linorder,plus}, 'f, 'k) evolve \<Rightarrow> ('a, 'p) heap \<Rightarrow> ('g, 'a) evolvable list
     \<Rightarrow> nat list \<Rightarrow> 'p list
     \<Rightarrow> (error + ('g, 'a) evolvable option \<times> nat list \<times> 'p list) option" where
  "cross_over_attempt self h parents picks floats =
     (case random_random [2] floats of
        None \<Rightarrow> None
      | Some (Inl e) \<Rightarrow> Some (Inl e)
      | Some (Inr (gene_range, floats1)) \<Rightarrow>
     (case comprehension (\<lambda>parent. parent_slice parent gene_range) parents of
        Inl e \<Rightarrow> Some (Inl e)
      | Inr parents_genes \<Rightarrow>
     (case comprehension (\<lambda>parent. parent_outside_range h parent gene_range) parents of
        Inl e \<Rightarrow> Some (Inl e)
      | Inr parents_remaining_genes \<Rightarrow>
     (case random_randint [2] picks of
        None \<Rightarrow> None
      | Some (Inl e) \<Rightarrow> Some (Inl e)
      | Some (Inr (chosen_parent_index, picks1)) \<Rightarrow>
     (case list_item parents_genes chosen_parent_index of
        Inl e \<Rightarrow> Some (Inl e)
      | Inr chosen_parent_genes \<Rightarrow>
     (case list_item parents_remaining_genes (1 - chosen_parent_index) of
        Inl e \<Rightarrow> Some (Inl e)
      | Inr discarded_parent_genes \<Rightarrow>
     (case ndarray_add (fst chosen_parent_genes) (fst discarded_parent_genes) of
        Inl e \<Rightarrow> Some (Inl e)
      | Inr new_alleles \<Rightarrow>
     (case ndarray_add (snd chosen_parent_genes) (snd discarded_parent_genes) of
        Inl e \<Rightarrow> Some (Inl e)
      | Inr new_indexes \<Rightarrow>
     (let child = from_arrays (evolvable_class self) new_alleles new_indexes in
      case mutate (gene_pool self) child 1 2 picks1 of
        None \<Rightarrow> None
      | Some (Inl e) \<Rightarrow> Some (Inl e)
      | Some (Inr (child', picks2)) \<Rightarrow>
          if can_survive (evolvable_class self) (genes child')
          then Some (Inr (Some (child'\<lparr>cache_attrs := True\<rparr>), picks2, floats1))
          else Some (Inr (None, picks2, floats1)))))))))))"

text \<open>
  \<open>cross_over\<close>: the passes of the loop, until one ends with an exception or a child;
  \<open>fuel\<close> is the number of times the loop may go round again.
\<close>

fun cross_over ::
  "nat \<Rightarrow> ('g, 'a::plus, 'p::{linorder,plus}, 'f, 'k) evolve \<Rightarrow> ('a, 'p) heap
     \<Rightarrow> ('g, 'a) evolvable list \<Rightarrow> nat list \<Rightarrow> 'p list
     \<Rightarrow> (error + ('g, 'a) evolvable \<times> nat list \<times> 'p list) option" where
  "cross_over 0 self h parents picks floats =
     (case cross_over_attempt self h parents picks floats of
        None \<Rightarrow> None
      | Some (Inl e) \<Rightarrow> Some (Inl e)
      | Some (Inr (Some child, picks', floats')) \<Rightarrow> Some (Inr (child, picks', floats'))
      | Some (Inr (None, picks', floats')) \<Rightarrow> None)"
| "cross_over (Suc fuel) self h parents picks floats =
     (case cross_over_attempt self h parents picks floats of
        None \<Rightarrow> None
      | Some (Inl e) \<Rightarrow> Some (Inl e)
      | Some (Inr (Some child, picks', floats')) \<Rightarrow> Some (Inr (child, picks', floats'))
      | Some (Inr (None, picks', floats')) \<Rightarrow> cross_over fuel self h parents picks' floats')"

subsection \<open>run\<close>

text \<open>\<open>[self.generate_random_parent() for _ in range(n_children)]\<close>.\<close>

fun generate_random_parents ::
  "nat \<Rightarrow> ('g, 'a, 'p, 'f, 'k) evolve \<Rightarrow> nat \<Rightarrow> nat list
     \<Rightarrow> (error + ('g, 'a) evolvable list \<times> nat list) option" where
  "generate_random_parents 0 self fuel picks = Some (Inr ([], picks))"
| "generate_random_parents (Suc n) self fuel picks =
     (case generate_random_parent self fuel picks of
        None \<Rightarrow> None
      | Some (Inl e) \<Rightarrow> Some (Inl e)
      | Some (Inr (parent, picks')) \<Rightarrow>
          (case generate_random_parents n self fuel picks' of
             None \<Rightarrow> None
           | Some (Inl e) \<Rightarrow> Some (Inl e)
           | Some (Inr (rest, picks'')) \<Rightarrow> Some (Inr (parent # rest, picks''))))"

text \<open>\<open>[self.cross_over(parents) for _ in range(n_children)]\<close>.\<close>

fun cross_overs ::
  "nat \<Rightarrow> nat \<Rightarrow> ('g, 'a::plus, 'p::{linorder,plus}, 'f, 'k) evolve \<Rightarrow> ('a, 'p) heap
     \<Rightarrow> ('g, 'a) evolvable list \<Rightarrow> nat list \<Rightarrow> 'p list
     \<Rightarrow> (error + ('g, 'a) evolvable list \<times> nat list \<times> 'p list) option" where
  "cross_overs 0 fuel self h parents picks floats = Some (Inr ([], picks, floats))"
| "cross_overs (Suc n) fuel self h parents picks floats =
     (case cross_over fuel self h parents picks floats of
        None \<Rightarrow> None
      | Some (Inl e) \<Rightarrow> Some (Inl e)
      | Some (Inr (child, picks', floats')) \<Rightarrow>
          (case cross_overs n fuel self h parents picks' floats' of
             None \<Rightarrow> None
           | Some (Inl e) \<Rightarrow> Some (Inl e)
           | Some (Inr (rest, picks'', floats'')) \<Rightarrow> Some (Inr (child # rest, picks'', floats''))))"

text \<open>
  Truth values of the two optional arguments: a callback is true when supplied, a
  number when supplied and not zero. The callback may change the engine it is handed.
\<close>

definition truthy_cb :: "'c option \<Rightarrow> bool" where
  "truthy_cb cb = (cb \<noteq> None)"

definition truthy_int :: "int option \<Rightarrow> bool" where
  "truthy_int n = (case n of None \<Rightarrow> False | Some k \<Rightarrow> k \<noteq> 0)"

text \<open>
  The block under \<open>if not self.population\<close>: the population is assigned once all parents
  exist, then \<open>set_best()\<close> is called with its default \<open>n_best=5\<close>.
\<close>

definition seed_population ::
  "('g, 'a, 'p, 'f::linorder, 'k) evolve \<Rightarrow> int \<Rightarrow> nat \<Rightarrow> nat list
     \<Rightarrow> (error + nat list) option \<times> ('g, 'a, 'p, 'f, 'k) evolve" where
  "seed_population self n_children fuel picks =
     (case generate_random_parents (nat n_children) self fuel picks of
        None \<Rightarrow> (None, self)
      | Some (Inl e) \<Rightarrow> (Some (Inl e), self)
      | Some (Inr (parents, picks')) \<Rightarrow>
          (Some (Inr picks'), set_best (self\<lparr>population := parents\<rparr>) 5))"

text \<open>
  \<open>if cb and i % cb_every == 0: cb(self, i)\<close>. The remainder is only computed when \<open>cb\<close>
  is true; it raises for a missing or zero \<open>cb_every\<close>.
\<close>

definition call_back ::
  "int option \<Rightarrow> ('s \<Rightarrow> int \<Rightarrow> 's) option \<Rightarrow> 's \<Rightarrow> int \<Rightarrow> error + 's" where
  "call_back cb_every cb self i =
     (case cb of
        None \<Rightarrow> Inr self
      | Some f \<Rightarrow>
          (case cb_every of
             None \<Rightarrow> Inl TypeError
           | Some k \<Rightarrow>
               if k = 0 then Inl ZeroDivisionError
               else if i mod k = 0 then Inr (f self i) else Inr self))"

text \<open>
  The generation loop \<open>for i in xrange(n)\<close>, over the list of the values of \<open>i\<close>; \<open>fuel\<close>
  bounds each \<open>while True\<close> loop.
\<close>

fun run_loop ::
  "nat list \<Rightarrow> ('g, 'a::plus, 'p::{linorder,plus}, 'f::linorder, 'k) evolve \<Rightarrow> ('a, 'p) heap
     \<Rightarrow> int \<Rightarrow> int \<Rightarrow> int option
     \<Rightarrow> (('g, 'a, 'p, 'f, 'k) evolve \<Rightarrow> int \<Rightarrow> ('g, 'a, 'p, 'f, 'k) evolve) option
     \<Rightarrow> nat \<Rightarrow> nat list \<Rightarrow> 'p list
     \<Rightarrow> (error + unit) option \<times> ('g, 'a, 'p, 'f, 'k) evolve" where
  "run_loop [] self h n_best n_children cb_every cb fuel picks floats = (Some (Inr ()), self)"
| "run_loop (i # rest) self h n_best n_children cb_every cb fuel picks floats =
     (case call_back cb_every cb self (int i) of
        Inl e \<Rightarrow> (Some (Inl e), self)
      | Inr self1 \<Rightarrow>
          (let parents = best_parents self1 2
           in case cross_overs (nat n_children) fuel self1 h parents picks floats of
                None \<Rightarrow> (None, self1)
              | Some (Inl e) \<Rightarrow> (Some (Inl e), self1)
              | Some (Inr (children, picks', floats')) \<Rightarrow>
                  run_loop rest (set_best (self1\<lparr>population := children\<rparr>) n_best) h
                    n_best n_children cb_every cb fuel picks' floats'))"

definition run ::
  "('g, 'a::plus, 'p::{linorder,plus}, 'f::linorder, 'k) evolve \<Rightarrow> ('a, 'p) heap
     \<Rightarrow> int \<Rightarrow> int \<Rightarrow> int \<Rightarrow> int option
     \<Rightarrow> (('g, 'a, 'p, 'f, 'k) evolve \<Rightarrow> int \<Rightarrow> ('g, 'a, 'p, 'f, 'k) evolve) option
     \<Rightarrow> nat \<Rightarrow> nat list \<Rightarrow> 'p list
     \<Rightarrow> (error + unit) option \<times> ('g, 'a, 'p, 'f, 'k) evolve" where
  "run self h n n_best n_children cb_every cb fuel picks floats =
     (if (truthy_cb cb \<or> truthy_int cb_every) \<and> \<not> (truthy_cb cb \<and> truthy_int cb_every)
      then (Some (Inl ValueError), self)
      else (case (if population self = [] then seed_population self n_children fuel picks
                  else (Some (Inr picks), self)) of
              (None, self') \<Rightarrow> (None, self')
            | (Some (Inl e), self') \<Rightarrow> (Some (Inl e), self')
            | (Some (Inr picks'), self') \<Rightarrow>
                run_loop [0..<nat n] self' h n_best n_children cb_every cb fuel picks' floats))"

section \<open>Notions used in the properties\<close>

text \<open>
  An instance is allocated in a store when its address and the addresses of its two
  sequence objects are below \<open>fresh\<close>.
\<close>

definition allocated :: "('a, 'p) heap \<Rightarrow> nat \<Rightarrow> bool" where
  "allocated h self =
     (self < fresh h \<and> priv_alleles (instances h self) < fresh h
      \<and> priv_alleles_indexes (instances h self) < fresh h)"

text \<open>The genes whose entry differs between two dicts (present in one only, or other value).\<close>

definition changed_genes :: "('g \<times> 'a) list \<Rightarrow> ('g \<times> 'a) list \<Rightarrow> 'g list" where
  "changed_genes before after =
     filter (\<lambda>g. map_of before g \<noteq> map_of after g) (remdups (map fst before @ map fst after))"

text \<open>
  The genes of \<open>P\<close> each hold an allele of one of their lists in the pool, and that allele
  is the value of no other gene of the dict.
\<close>

definition assigned :: "('g \<times> 'a list) list \<Rightarrow> 'g set \<Rightarrow> ('g \<times> 'a) list \<Rightarrow> bool" where
  "assigned pool P d =
     (\<forall>g\<in>P. \<exists>v. map_of d g = Some v \<and> (\<exists>allele. (g, allele) \<in> set pool \<and> v \<in> set allele)
              \<and> (\<forall>g'. g' \<noteq> g \<longrightarrow> map_of d g' \<noteq> Some v))"

section \<open>Example inputs\<close>

text \<open>
  A store with two instances: \<open>gene_pool([1, 2], [0.2, 0.8])\<close> at address 0 and
  \<open>gene_pool([3, 4], [0.3, 0.9])\<close> at address 3; and a store with the empty
  \<open>gene_pool()\<close> at address 0.
\<close>

definition example_heap :: "(nat, real) heap" where
  "example_heap =
     fst (snd (gene_pool_init
       (fst (snd (gene_pool_init empty_heap (Some [1, 2]) (Some [Some (1/5), Some (4/5)]) [])))
       (Some [3, 4]) (Some [Some (3/10), Some (9/10)]) []))"

definition empty_pool_heap :: "(nat, real) heap" where
  "empty_pool_heap = fst (snd (gene_pool_init empty_heap None None []))"

text \<open>
  A candidate class over dicts from gene names to numbers: a new candidate has an empty
  dict, its fitness is the sum of its alleles, it survives with a fitness of at least 4,
  and its uniqueness key is its genes.
\<close>

definition example_class :: "(string, nat, real, nat, (string, nat) genes_obj) evolvable_class" where
  "example_class =
     \<lparr>from_names = (\<lambda>names. \<lparr>genes = Dict [], cache_attrs = False\<rparr>),
      from_arrays = (\<lambda>a p. \<lparr>genes = Dict [], cache_attrs = False\<rparr>),
      fitness_level = (\<lambda>g. case g of Dict d \<Rightarrow> sum_list (map snd d) | Pool r \<Rightarrow> 0),
      can_survive = (\<lambda>g. case g of Dict d \<Rightarrow> 4 \<le> sum_list (map snd d) | Pool r \<Rightarrow> False),
      unique = (\<lambda>g. g)\<rparr>"

definition example_engine :: "(string, nat, real, nat, (string, nat) genes_obj) evolve" where
  "example_engine =
     \<lparr>gene_pool = [(''x'', [1, 2, 3]), (''y'', [1, 2, 3])], population = [], best = [],
      evolvable_class = example_class\<rparr>"

text \<open>An engine whose population holds two candidates of fitness 4 and one of fitness 5.\<close>

definition tie_engine :: "(string, nat, real, nat, (string, nat) genes_obj) evolve" where
  "tie_engine =
     example_engine\<lparr>population :=
       [\<lparr>genes = Dict [(''x'', 1), (''y'', 3)], cache_attrs = True\<rparr>,
        \<lparr>genes = Dict [(''x'', 3), (''y'', 1)], cache_attrs = True\<rparr>,
        \<lparr>genes = Dict [(''x'', 3), (''y'', 2)], cache_attrs = True\<rparr>]\<rparr>"

text \<open>An engine with one gene of seven alleles, every one of which survives.\<close>

definition seed_engine :: "(string, nat, real, nat, (string, nat) genes_obj) evolve" where
  "seed_engine = example_engine\<lparr>gene_pool := [(''x'', [4, 5, 6, 7, 8, 9, 10])]\<rparr>"

text \<open>
  The same engine with no population and an archive of seven candidates, as a run with
  a larger \<open>n_best\<close> can leave it once the population is cleared.
\<close>

definition archive_engine :: "(string, nat, real, nat, (string, nat) genes_obj) evolve" where
  "archive_engine =
     seed_engine\<lparr>best :=
       map (\<lambda>v. \<lparr>genes = Dict [(''x'', v)], cache_attrs = True\<rparr>) [4, 5, 6, 7, 8, 9, 10]\<rparr>"

text \<open>Two parents whose genes are the two instances of \<open>example_heap\<close>.\<close>

definition pool_parents :: "(string, nat) evolvable list" where
  "pool_parents =
     [\<lparr>genes = Pool 0, cache_attrs = True\<rparr>, \<lparr>genes = Pool 3, cache_attrs = True\<rparr>]"

text \<open>A pool of one gene with two alleles, and a candidate holding the first.\<close>

definition flip_pool :: "(string \<times> nat list) list" where
  "flip_pool = [(''x'', [0, 1])]"

definition flip_candidate :: "(string, nat) evolvable" where
  "flip_candidate = \<lparr>genes = Dict [(''x'', 0)], cache_attrs = False\<rparr>"

section \<open>Properties of gene\_pool.py\<close>

lemmas gene_pool_defs =
  gene_pool_init_def add_allele_def empty_heap_def getslice_def get_genes_outside_range_def
  remove_slice_def gene_selector_def alleles_def alleles_indexes_def ndarray_getitem_def
  entries_def Let_def

text \<open>
  As long as \<open>self.__alleles_indexes\<close> is the Python list that \<open>__init__\<close> created,
  \<open>__getslice__\<close> raises whatever the bounds, and \<open>remove_slice\<close> raises after it has
  replaced \<open>self.__alleles\<close>.
\<close>

lemma getslice_list_raises:
  assumes "index_objs h (priv_alleles_indexes (instances h self)) = PyList ys"
  shows "\<exists>e. getslice h self i j = Inl e"
  using assms by (simp add: getslice_def Let_def split: sum.splits)

lemma remove_slice_list_raises:
  assumes "index_objs h (priv_alleles_indexes (instances h self)) = PyList ys"
    and "allocated h self"
  shows "\<exists>e. fst (remove_slice h self start stop) = Inl e"
  using assms by (auto simp: remove_slice_def allocated_def Let_def split: sum.splits)

text \<open>
  Claim C4 says that the range query \<open>[a:b]\<close> and \<open>get_genes_outside_range(a, b)\<close>
  together return every (allele, position) pair of the index exactly once. On
  \<open>gene_pool([1, 2], [0.2, 0.8])\<close> with the bounds 0 and 1 the range query raises
  TypeError and so returns no pair, while the complement is empty: the two results do not
  make up the index.
\<close>

theorem getslice_loses_entries:
  "entries example_heap 0 = [(1, 1/5), (2, 4/5)]
   \<and> getslice example_heap 0 0 1 = Inl TypeError
   \<and> get_genes_outside_range example_heap 0 0 1 = Inr ([], [])"
  by (simp add: example_heap_def gene_pool_defs)

text \<open>
  Claim C7 says that neither query ever raises and that a range matching no entry yields
  an empty result. The range query raises TypeError on the empty index and on a range
  that matches no entry of \<open>gene_pool([1, 2], [0.2, 0.8])\<close>;
  \<open>get_genes_outside_range\<close> returns on both.
\<close>

theorem getslice_raises_on_empty_range:
  "getslice empty_pool_heap 0 0 1 = Inl TypeError
   \<and> get_genes_outside_range empty_pool_heap 0 0 1 = Inr ([], [])
   \<and> getslice example_heap 0 2 3 = Inl TypeError
   \<and> get_genes_outside_range example_heap 0 2 3 = Inr ([1, 2], [1/5, 4/5])"
  by (simp add: example_heap_def empty_pool_heap_def gene_pool_defs)

text \<open>
  Claim C8 says that \<open>remove_slice(start, stop)\<close> removes the entries inside the range and
  leaves alleles and positions aligned. On \<open>gene_pool([1, 2], [0.2, 0.8])\<close>,
  \<open>remove_slice(0.5, 1)\<close> raises TypeError after it has dropped the allele 2: the position
  0.8 stays, and the instance holds one allele and two positions.
\<close>

theorem remove_slice_misaligns:
  "(case remove_slice example_heap 0 (1/2) 1 of
      (r, h') \<Rightarrow> r = Inl TypeError \<and> alleles h' 0 = [1] \<and> alleles_indexes h' 0 = [1/5, 4/5])"
  by (simp add: example_heap_def gene_pool_defs)

subsection \<open>copy\<close>

lemma add_allele_lists:
  assumes "instances h self = \<lparr>priv_alleles = ra, priv_alleles_indexes = ri\<rparr>"
    and "allele_objs h ra = PyList xs" and "index_objs h ri = PyList ys"
  shows "\<exists>h'. add_allele h self a (Some p) nprand = (Some (Inr ()), h', nprand)
           \<and> allele_objs h' = (allele_objs h)(ra := PyList (xs @ [a]))
           \<and> index_objs h' = (index_objs h)(ri := PyList (ys @ [p]))
           \<and> instances h' = instances h \<and> fresh h' = fresh h"
  using assms by (simp add: add_allele_def Let_def)

lemma add_alleles_lists:
  assumes "instances h self = \<lparr>priv_alleles = ra, priv_alleles_indexes = ri\<rparr>"
    and "allele_objs h ra = PyList xs" and "index_objs h ri = PyList ys"
  shows "\<exists>h'. add_alleles h self (map (\<lambda>(a, p). (a, Some p)) zs) nprand
                 = (Some (Inr ()), h', nprand)
           \<and> allele_objs h' = (allele_objs h)(ra := PyList (xs @ map fst zs))
           \<and> index_objs h' = (index_objs h)(ri := PyList (ys @ map snd zs))
           \<and> instances h' = instances h \<and> fresh h' = fresh h"
  using assms
proof (induction zs arbitrary: h xs ys)
  case Nil
  then show ?case by (simp add: fun_upd_idem)
next
  case (Cons z zs)
  obtain a p where z: "z = (a, p)" by (cases z)
  from add_allele_lists[OF Cons.prems, of a p nprand]
  obtain h1 where step: "add_allele h self a (Some p) nprand = (Some (Inr ()), h1, nprand)"
    and h1: "allele_objs h1 = (allele_objs h)(ra := PyList (xs @ [a]))"
      "index_objs h1 = (index_objs h)(ri := PyList (ys @ [p]))"
      "instances h1 = instances h" "fresh h1 = fresh h"
    by blast
  have "\<exists>h'. add_alleles h1 self (map (\<lambda>(a, p). (a, Some p)) zs) nprand
                = (Some (Inr ()), h', nprand)
           \<and> allele_objs h' = (allele_objs h1)(ra := PyList ((xs @ [a]) @ map fst zs))
           \<and> index_objs h' = (index_objs h1)(ri := PyList ((ys @ [p]) @ map snd zs))
           \<and> instances h' = instances h1 \<and> fresh h' = fresh h1"
    by (rule Cons.IH) (use Cons.prems h1 in simp_all)
  then show ?case using step z h1 by auto
qed

text \<open>The store after \<open>copy\<close>: one new instance with two new lists, nothing else changed.\<close>

lemma copy_heap:
  "\<exists>h'. copy h self nprand = (Some (Inr (fresh h)), h', nprand)
     \<and> allele_objs h' = (allele_objs h)(fresh h + 1 := PyList (map fst (entries h self)))
     \<and> index_objs h' = (index_objs h)(fresh h + 2 := PyList (map snd (entries h self)))
     \<and> instances h' = (instances h)
          (fresh h := \<lparr>priv_alleles = fresh h + 1, priv_alleles_indexes = fresh h + 2\<rparr>)
     \<and> fresh h' = fresh h + 3"
proof -
  let ?h0 = "h\<lparr>allele_objs := (allele_objs h)(fresh h + 1 := PyList []),
                 index_objs := (index_objs h)(fresh h + 2 := PyList []),
                 instances := (instances h)
                   (fresh h := \<lparr>priv_alleles = fresh h + 1, priv_alleles_indexes = fresh h + 2\<rparr>),
                 fresh := fresh h + 3\<rparr>"
  have z: "zip (alleles h self) (map Some (alleles_indexes h self)) =
        map (\<lambda>(a, p). (a, Some p)) (entries h self)"
    by (simp add: entries_def zip_map2)
  have "\<exists>h'. add_alleles ?h0 (fresh h) (map (\<lambda>(a, p). (a, Some p)) (entries h self)) nprand
              = (Some (Inr ()), h', nprand)
           \<and> allele_objs h' = (allele_objs ?h0)(fresh h + 1 := PyList ([] @ map fst (entries h self)))
           \<and> index_objs h' = (index_objs ?h0)(fresh h + 2 := PyList ([] @ map snd (entries h self)))
           \<and> instances h' = instances ?h0 \<and> fresh h' = fresh ?h0"
    by (rule add_alleles_lists) simp_all
  then obtain h' where
    "add_alleles ?h0 (fresh h) (map (\<lambda>(a, p). (a, Some p)) (entries h self)) nprand
       = (Some (Inr ()), h', nprand)"
    "allele_objs h' = (allele_objs ?h0)(fresh h + 1 := PyList ([] @ map fst (entries h self)))"
    "index_objs h' = (index_objs ?h0)(fresh h + 2 := PyList ([] @ map snd (entries h self)))"
    "instances h' = instances ?h0" "fresh h' = fresh ?h0"
    by blast
  then show ?thesis
    by (simp add: copy_def gene_pool_init_def Let_def z)
qed

text \<open>
  \<open>remove_slice\<close> binds the attributes of its own instance to new objects; it changes no
  object in place, so every other allocated instance reads as before, also when the
  call raises.
\<close>

lemma remove_slice_frame:
  assumes "allocated h x" and "x \<noteq> self"
  shows "alleles (snd (remove_slice h self start stop)) x = alleles h x"
    and "alleles_indexes (snd (remove_slice h self start stop)) x = alleles_indexes h x"
  using assms
  by (auto simp: remove_slice_def Let_def allocated_def alleles_def alleles_indexes_def
      split: sum.splits)

text \<open>
  Claim C6: \<open>copy()\<close> returns a new instance with the same (allele, position) entries
  (the same alleles and the same positions, when the original has as many of the one as
  of the other), whose two sequence objects are not those of the original; the original reads as
  before the copy; \<open>remove_slice\<close> on the copy, with any bounds, leaves the alleles and
  positions of the original unchanged, and \<open>remove_slice\<close> on the original leaves those
  of the copy unchanged.
\<close>

theorem copy_independent:
  assumes "allocated h self"
  shows "case copy h self nprand of
           (r, h', nprand') \<Rightarrow>
             r = Some (Inr (fresh h)) \<and> fresh h \<noteq> self
             \<and> entries h' (fresh h) = entries h self
             \<and> (length (alleles h self) = length (alleles_indexes h self) \<longrightarrow>
                  alleles h' (fresh h) = alleles h self
                  \<and> alleles_indexes h' (fresh h) = alleles_indexes h self)
             \<and> priv_alleles (instances h' (fresh h)) \<noteq> priv_alleles (instances h' self)
             \<and> priv_alleles_indexes (instances h' (fresh h))
                 \<noteq> priv_alleles_indexes (instances h' self)
             \<and> alleles h' self = alleles h self
             \<and> alleles_indexes h' self = alleles_indexes h self
             \<and> (\<forall>start stop.
                   alleles (snd (remove_slice h' (fresh h) start stop)) self = alleles h self
                   \<and> alleles_indexes (snd (remove_slice h' (fresh h) start stop)) self
                       = alleles_indexes h self)
             \<and> (\<forall>start stop.
                   alleles (snd (remove_slice h' self start stop)) (fresh h) = alleles h' (fresh h)
                   \<and> alleles_indexes (snd (remove_slice h' self start stop)) (fresh h)
                       = alleles_indexes h' (fresh h))"
proof -
  obtain h' where c: "copy h self nprand = (Some (Inr (fresh h)), h', nprand)"
    and h': "allele_objs h' = (allele_objs h)(fresh h + 1 := PyList (map fst (entries h self)))"
     "index_objs h' = (index_objs h)(fresh h + 2 := PyList (map snd (entries h self)))"
     "instances h' = (instances h)
          (fresh h := \<lparr>priv_alleles = fresh h + 1, priv_alleles_indexes = fresh h + 2\<rparr>)"
     "fresh h' = fresh h + 3"
    using copy_heap[of h self nprand] by blast
  have ne: "fresh h \<noteq> self" using assms by (auto simp: allocated_def)
  have a1: "allocated h' self" using assms h' by (auto simp: allocated_def)
  have a2: "allocated h' (fresh h)" using h' by (auto simp: allocated_def)
  have keep: "alleles h' self = alleles h self" "alleles_indexes h' self = alleles_indexes h self"
    using assms h' by (auto simp: allocated_def alleles_def alleles_indexes_def)
  have ent: "entries h' (fresh h) = entries h self"
    using h' by (simp add: entries_def alleles_def alleles_indexes_def zip_map_fst_snd)
  have same: "alleles h' (fresh h) = alleles h self
      \<and> alleles_indexes h' (fresh h) = alleles_indexes h self"
    if "length (alleles h self) = length (alleles_indexes h self)"
    using h' that by (simp add: entries_def alleles_def alleles_indexes_def)
  have refs: "priv_alleles (instances h' (fresh h)) \<noteq> priv_alleles (instances h' self)"
     "priv_alleles_indexes (instances h' (fresh h)) \<noteq> priv_alleles_indexes (instances h' self)"
    using assms h' by (auto simp: allocated_def)
  have f1: "\<And>start stop.
      alleles (snd (remove_slice h' (fresh h) start stop)) self = alleles h self
      \<and> alleles_indexes (snd (remove_slice h' (fresh h) start stop)) self = alleles_indexes h self"
    using remove_slice_frame[OF a1, of "fresh h"] ne keep by metis
  have f2: "\<And>start stop.
      alleles (snd (remove_slice h' self start stop)) (fresh h) = alleles h' (fresh h)
      \<and> alleles_indexes (snd (remove_slice h' self start stop)) (fresh h)
          = alleles_indexes h' (fresh h)"
    using remove_slice_frame[OF a2, of self] ne by metis
  show ?thesis
    unfolding c using ne ent same refs keep f1 f2 by simp
qed

theorem copy_independent_witness:
  "allocated example_heap 0
   \<and> (\<exists>h'. copy example_heap 0 [] = (Some (Inr 6), h', [])
         \<and> entries h' 6 = [(1, 1/5), (2, 4/5)]
         \<and> alleles (snd (remove_slice h' 6 0 1)) 0 = [1, 2]
         \<and> alleles_indexes (snd (remove_slice h' 6 0 1)) 0 = [1/5, 4/5]
         \<and> alleles (snd (remove_slice h' 0 0 1)) 6 = [1, 2]
         \<and> alleles_indexes (snd (remove_slice h' 0 0 1)) 6 = [1/5, 4/5])"
proof -
  have a: "allocated example_heap 0"
    by (simp add: allocated_def example_heap_def gene_pool_defs)
  have f: "fresh example_heap = 6"
    by (simp add: example_heap_def gene_pool_defs)
  have e: "entries example_heap 0 = [(1, 1/5), (2, 4/5)]"
    by (simp add: example_heap_def gene_pool_defs)
  have al: "alleles example_heap 0 = [1, 2]" "alleles_indexes example_heap 0 = [1/5, 4/5]"
    by (simp_all add: example_heap_def gene_pool_defs)
  obtain r h' n' where c: "copy example_heap 0 [] = (r, h', n')"
    by (cases "copy example_heap 0 ([] :: real list)")
  have n': "n' = []" using c copy_heap[of example_heap 0 "[]"] by auto
  from copy_independent[OF a, of "[]"] c f e al
  have "r = Some (Inr 6)" "entries h' 6 = [(1, 1/5), (2, 4/5)]"
    "alleles (snd (remove_slice h' 6 0 1)) 0 = [1, 2]"
    "alleles_indexes (snd (remove_slice h' 6 0 1)) 0 = [1/5, 4/5]"
    "alleles (snd (remove_slice h' 0 0 1)) 6 = alleles h' 6"
    "alleles_indexes (snd (remove_slice h' 0 0 1)) 6 = alleles_indexes h' 6"
    by simp_all
  moreover have "alleles h' 6 = [1, 2] \<and> alleles_indexes h' 6 = [1/5, 4/5]"
    using copy_heap[of example_heap 0 "[]"] c f e
    by (auto simp: alleles_def alleles_indexes_def)
  ultimately show ?thesis using a c n' by simp
qed

section \<open>Properties of evolve.py\<close>

lemmas evolve_example_defs =
  example_engine_def example_class_def tie_engine_def seed_engine_def archive_engine_def

subsection \<open>set\_best\<close>

lemma set_best_loop_distinct:
  "distinct (map key kept) \<Longrightarrow> key ` set kept \<subseteq> seen \<Longrightarrow>
     distinct (map key (set_best_loop key values seen kept))"
proof (induction "values" arbitrary: seen kept)
  case Nil
  then show ?case by simp
next
  case (Cons v vs)
  show ?case
  proof (cases "key v \<in> seen")
    case True
    then show ?thesis using Cons by simp
  next
    case False
    have "distinct (map key (kept @ [v]))" using Cons.prems False by auto
    moreover have "key ` set (kept @ [v]) \<subseteq> insert (key v) seen" using Cons.prems by auto
    ultimately show ?thesis using Cons.IH False by simp
  qed
qed

lemma set_best_loop_first:
  "v \<in> set (set_best_loop key values seen kept) \<Longrightarrow>
     v \<in> set kept \<or> (key v \<notin> seen \<and> find (\<lambda>w. key w = key v) values = Some v)"
proof (induction "values" arbitrary: seen kept)
  case Nil
  then show ?case by simp
next
  case (Cons x xs)
  show ?case
  proof (cases "key x \<in> seen")
    case True
    with Cons have "v \<in> set kept \<or> (key v \<notin> seen \<and> find (\<lambda>w. key w = key v) xs = Some v)"
      by simp
    then show ?thesis using True by auto
  next
    case False
    with Cons.prems have "v \<in> set (set_best_loop key xs (insert (key x) seen) (kept @ [x]))"
      by simp
    from Cons.IH[OF this]
    have "v \<in> set (kept @ [x])
          \<or> (key v \<notin> insert (key x) seen \<and> find (\<lambda>w. key w = key v) xs = Some v)" .
    then show ?thesis using False by auto
  qed
qed

lemma sorted_reverse_descending:
  "sorted_wrt (\<lambda>x y. key x \<ge> key y) (sorted_reverse key xs)"
proof -
  have "sorted (map key (sort_key key (rev xs)))" by (rule sorted_sort_key)
  then have "sorted_wrt (\<lambda>x y. key x \<le> key y) (sort_key key (rev xs))"
    by (simp add: sorted_map)
  then show ?thesis
    by (simp add: sorted_reverse_def sorted_wrt_rev)
qed

lemma mset_sorted_reverse: "mset (sorted_reverse key xs) = mset xs"
  by (simp add: sorted_reverse_def)

lemma set_sorted_reverse: "set (sorted_reverse key xs) = set xs"
  by (simp add: sorted_reverse_def)

lemma distinct_map_sorted_reverse:
  "distinct (map f (sorted_reverse key xs)) = distinct (map f xs)"
proof -
  have "mset (map f (sorted_reverse key xs)) = mset (map f xs)"
    by (simp add: mset_sorted_reverse)
  then show ?thesis by (rule mset_eq_imp_distinct_iff)
qed

lemma slice_to_nonneg: "0 \<le> n \<Longrightarrow> slice_to n xs = take (nat n) xs"
  by (simp add: slice_to_def)

lemma length_best_set_best: "0 \<le> n \<Longrightarrow> length (best (set_best self n)) \<le> nat n"
  by (simp add: set_best_def Let_def slice_to_nonneg)

text \<open>
  Claim C3, as the code has it: after \<open>set_best(n_best)\<close> with \<open>n_best\<close> not negative, for
  any prior archive and population, the archive has at most \<open>n_best\<close> entries, its
  fitness never increases along the list, no two entries share a uniqueness key, and
  every entry is the first of archive followed by population to carry its key.
\<close>

theorem set_best_archive:
  fixes self :: "('g, 'a, 'p, 'f::linorder, 'k) evolve"
  assumes "0 \<le> n_best"
  shows "int (length (best (set_best self n_best))) \<le> n_best
     \<and> sorted_wrt (\<lambda>x y. fitness_level (evolvable_class self) (genes x)
                          \<ge> fitness_level (evolvable_class self) (genes y))
          (best (set_best self n_best))
     \<and> distinct (map (\<lambda>v. unique (evolvable_class self) (genes v)) (best (set_best self n_best)))
     \<and> (\<forall>v \<in> set (best (set_best self n_best)).
          find (\<lambda>w. unique (evolvable_class self) (genes w) = unique (evolvable_class self) (genes v))
            (best self @ population self) = Some v)"
proof -
  let ?key = "\<lambda>v. unique (evolvable_class self) (genes v)"
  let ?fit = "\<lambda>k. fitness_level (evolvable_class self) (genes k)"
  let ?kept = "set_best_loop ?key (best self @ population self) {} []"
  have b: "best (set_best self n_best) = take (nat n_best) (sorted_reverse ?fit ?kept)"
    using assms by (simp add: set_best_def Let_def slice_to_nonneg)
  have len: "int (length (best (set_best self n_best))) \<le> n_best"
    using assms unfolding b by simp
  have srt: "sorted_wrt (\<lambda>x y. ?fit x \<ge> ?fit y) (best (set_best self n_best))"
    unfolding b by (rule sorted_wrt_take) (rule sorted_reverse_descending)
  have "distinct (map ?key ?kept)"
    by (rule set_best_loop_distinct) simp_all
  then have "distinct (map ?key (sorted_reverse ?fit ?kept))"
    by (simp add: distinct_map_sorted_reverse)
  then have dst: "distinct (map ?key (best (set_best self n_best)))"
    unfolding b by (simp add: take_map[symmetric] del: take_map)
  have fst: "find (\<lambda>w. ?key w = ?key v) (best self @ population self) = Some v"
    if "v \<in> set (best (set_best self n_best))" for v
  proof -
    from that have "v \<in> set (sorted_reverse ?fit ?kept)"
      unfolding b by (rule in_set_takeD)
    then have "v \<in> set ?kept" by (simp add: set_sorted_reverse)
    from set_best_loop_first[OF this] show ?thesis by simp
  qed
  show ?thesis using len srt dst fst by blast
qed

text \<open>
  With \<open>n_best = 2\<close> and a population of fitness 4, 4 and 5, the archive is the candidate
  of fitness 5 followed by the first of the two of fitness 4.
\<close>

theorem set_best_archive_witness:
  "(0::int) \<le> 2
   \<and> best (set_best tie_engine 2) =
       [\<lparr>genes = Dict [(''x'', 3), (''y'', 2)], cache_attrs = True\<rparr>,
        \<lparr>genes = Dict [(''x'', 1), (''y'', 3)], cache_attrs = True\<rparr>]
   \<and> int (length (best (set_best tie_engine 2))) \<le> 2
   \<and> distinct (map (\<lambda>v. unique (evolvable_class tie_engine) (genes v)) (best (set_best tie_engine 2)))"
proof -
  have b: "best (set_best tie_engine 2) =
       [\<lparr>genes = Dict [(''x'', 3), (''y'', 2)], cache_attrs = True\<rparr>,
        \<lparr>genes = Dict [(''x'', 1), (''y'', 3)], cache_attrs = True\<rparr>]"
    by (simp add: set_best_def sorted_reverse_def slice_to_def evolve_example_defs Let_def
        numeral_2_eq_2)
  have h: "(0::int) \<le> 2" by simp
  from set_best_archive[OF h, of tie_engine] b show ?thesis by simp
qed

text \<open>
  The order is not strict: here two candidates of fitness 4 with different keys are next
  to each other in the archive. And the size is not bounded by a negative \<open>n_best\<close>.
\<close>

theorem set_best_ties_counterexample:
  "\<not> sorted_wrt (\<lambda>x y. fitness_level example_class (genes x) > fitness_level example_class (genes y))
        (best (set_best tie_engine 5))
   \<and> \<not> int (length (best (set_best tie_engine (- 1)))) \<le> - 1"
  by (simp add: set_best_def sorted_reverse_def slice_to_def evolve_example_defs Let_def)

subsection \<open>mutate\<close>

lemma set_changed_genes:
  "set (changed_genes before after) = {g. map_of before g \<noteq> map_of after g}"
proof -
  have "map_of before g = map_of after g"
    if "g \<notin> set (map fst before)" "g \<notin> set (map fst after)" for g
  proof -
    have "map_of before g = None" "map_of after g = None"
      using that by (auto simp: map_of_eq_None_iff)
    then show ?thesis by simp
  qed
  then show ?thesis by (auto simp: changed_genes_def)
qed

lemma distinct_changed_genes: "distinct (changed_genes before after)"
  by (simp add: changed_genes_def)

lemma length_changed_genes:
  "length (changed_genes before after) = card {g. map_of before g \<noteq> map_of after g}"
  using distinct_card[OF distinct_changed_genes, of before after]
  by (simp add: set_changed_genes)

lemma values_update_subset:
  "set (map snd (AList.update k v d)) \<subseteq> insert v (set (map snd d))"
  by (induction d) auto

lemma distinct_values_update:
  "distinct (map snd d) \<Longrightarrow> v \<notin> set (map snd d) \<Longrightarrow> distinct (map snd (AList.update k v d))"
proof (induction d)
  case Nil
  then show ?case by simp
next
  case (Cons x d)
  obtain k' v' where x: "x = (k', v')" by (cases x)
  show ?case
  proof (cases "k = k'")
    case True
    then show ?thesis using Cons.prems x by auto
  next
    case False
    have "v' \<notin> set (map snd (AList.update k v d))"
      using values_update_subset[of k v d] Cons.prems x by auto
    then show ?thesis using Cons x False by simp
  qed
qed

lemma mutate_swap_result:
  "mutate_swap pool (Dict d) picks = Some (Inr (gs', picks')) \<Longrightarrow>
     \<exists>g v. gs' = Dict (AList.update g v d) \<and> v \<notin> set (map snd d)"
proof (induction pool "Dict d :: ('a, 'b) genes_obj" picks rule: mutate_swap.induct)
  case (1 pool)
  then show ?case by (simp split: if_splits)
next
  case (2 pool r1 picks1)
  then show ?case
    by (auto simp: Let_def split: if_splits option.splits list.splits)
qed

lemma changed_after_update:
  "{g. map_of d g \<noteq> map_of (AList.update k v d') g} \<subseteq> insert k {g. map_of d g \<noteq> map_of d' g}"
  by (auto simp: update_conv')

lemma finite_changed: "finite {g. map_of before g \<noteq> map_of after g}"
  using set_changed_genes[of before after, symmetric] by (metis List.finite_set)

lemma mutate_swaps_result:
  "mutate_swaps n pool (Dict d) picks = Some (Inr (gs', picks')) \<Longrightarrow> distinct (map snd d) \<Longrightarrow>
   distinct (map fst d) \<Longrightarrow>
     \<exists>d'. gs' = Dict d' \<and> distinct (map snd d') \<and> distinct (map fst d')
        \<and> card {g. map_of d0 g \<noteq> map_of d' g} \<le> card {g. map_of d0 g \<noteq> map_of d g} + n"
proof (induction n arbitrary: d picks)
  case 0
  then show ?case by auto
next
  case (Suc n)
  from Suc.prems(1) obtain gs1 picks1 where
    s: "mutate_swap pool (Dict d) picks = Some (Inr (gs1, picks1))"
    and r: "mutate_swaps n pool gs1 picks1 = Some (Inr (gs', picks'))"
    by (auto split: option.splits sum.splits)
  from mutate_swap_result[OF s] obtain g v where
    gs1: "gs1 = Dict (AList.update g v d)" and v: "v \<notin> set (map snd d)" by blast
  let ?d1 = "AList.update g v d"
  have d1: "distinct (map snd ?d1)" "distinct (map fst ?d1)"
    using Suc.prems v by (simp_all add: distinct_values_update distinct_update)
  from Suc.IH[OF r[unfolded gs1] d1] obtain d' where
    d': "gs' = Dict d'" "distinct (map snd d')" "distinct (map fst d')"
      "card {g. map_of d0 g \<noteq> map_of d' g} \<le> card {g. map_of d0 g \<noteq> map_of ?d1 g} + n"
    by blast
  have "card {g. map_of d0 g \<noteq> map_of ?d1 g} \<le> card (insert g {g. map_of d0 g \<noteq> map_of d g})"
    by (rule card_mono) (simp_all add: finite_changed changed_after_update)
  also have "\<dots> \<le> card {g. map_of d0 g \<noteq> map_of d g} + 1"
    by (simp add: card_insert_if finite_changed)
  finally show ?case using d' by auto
qed

lemma one_swap_changes_one:
  assumes "v \<notin> set (map snd d)"
  shows "{g. map_of d g \<noteq> map_of (AList.update k v d) g} = {k}"
proof -
  have "map_of d k \<noteq> Some v"
    using assms map_of_SomeD[of d k v] by force
  then show ?thesis by (auto simp: update_conv')
qed

lemma randint_1_2:
  "randint 1 2 picks = Some (Inr (swap, picks')) \<Longrightarrow>
     \<exists>r. picks = r # picks' \<and> swap = 1 + int r mod 2"
  by (auto simp: randint_def split: list.splits)

text \<open>
  Claim C5, as the code has it: when \<open>mutate(c, 1, 2)\<close> returns on a candidate whose dict
  has no allele twice, the dict has no allele twice afterwards and at most 2 of its
  entries differ from before; exactly one differs when one swap was drawn (the first
  number drawn is even). With two swaps the second may overwrite the gene of the first,
  also with the allele that gene had before.
\<close>

theorem mutate_changes:
  assumes "mutate pool c 1 2 picks = Some (Inr (c', picks'))"
    and "genes c = Dict d" and "distinct (map fst d)" and "distinct (map snd d)"
  shows "\<exists>d'. genes c' = Dict d' \<and> distinct (map fst d') \<and> distinct (map snd d')
           \<and> length (changed_genes d d') \<le> 2
           \<and> (even (hd picks) \<longrightarrow> length (changed_genes d d') = 1)"
proof -
  from assms(1) obtain swap picks1 gs where
    ri: "randint 1 2 picks = Some (Inr (swap, picks1))"
    and sw: "mutate_swaps (nat swap) pool (genes c) picks1 = Some (Inr (gs, picks'))"
    and c': "c' = c\<lparr>genes := gs\<rparr>"
    by (auto simp: mutate_def split: option.splits sum.splits)
  from randint_1_2[OF ri] obtain r where r: "picks = r # picks1" "swap = 1 + int r mod 2"
    by blast
  have swap_le: "nat swap \<le> 2" using r by (simp add: nat_le_iff) 
  from mutate_swaps_result[OF sw[unfolded assms(2)] assms(4) assms(3), of d]
  obtain d' where d': "gs = Dict d'" "distinct (map snd d')" "distinct (map fst d')"
    "card {g. map_of d g \<noteq> map_of d' g} \<le> nat swap" by auto
  have le2: "length (changed_genes d d') \<le> 2"
    using d'(4) swap_le by (simp add: length_changed_genes)
  have one: "length (changed_genes d d') = 1" if ev: "even (hd picks)"
  proof -
    have "even r" using ev r by simp
    hence "int r mod 2 = 0" by presburger
    then have "nat swap = Suc 0" using r by simp
    with sw assms(2) obtain picks2 where
      "mutate_swap pool (Dict d) picks1 = Some (Inr (gs, picks2))"
      by (auto split: option.splits sum.splits)
    from mutate_swap_result[OF this] d'(1) obtain g v where
      "d' = AList.update g v d" "v \<notin> set (map snd d)" by auto
    then show ?thesis
      by (simp add: length_changed_genes one_swap_changes_one)
  qed
  show ?thesis using c' d' le2 one by auto
qed

text \<open>One swap on the candidate \<open>{x: 0}\<close> over the pool \<open>{x: [0, 1]}\<close>.\<close>

theorem mutate_changes_witness:
  "mutate flip_pool flip_candidate 1 2 [0, 0, 1] =
      Some (Inr (\<lparr>genes = Dict [(''x'', 1)], cache_attrs = False\<rparr>, []))
   \<and> length (changed_genes [(''x'', 0::nat)] [(''x'', 1)]) = 1"
proof -
  have m: "mutate flip_pool flip_candidate 1 2 [0, 0, 1] =
      Some (Inr (\<lparr>genes = Dict [(''x'', 1)], cache_attrs = False\<rparr>, []))"
    by (simp add: mutate_def randint_def flip_pool_def flip_candidate_def)
  have g: "genes flip_candidate = Dict [(''x'', 0)]" by (simp add: flip_candidate_def)
  from mutate_changes[OF m g] show ?thesis using m by simp
qed

text \<open>
  Two swaps on the same candidate: the first stores 1 under \<open>x\<close>, the second stores 0
  again, which is then no longer among the values. No entry differs from before.
\<close>

theorem mutate_restores_counterexample:
  "mutate flip_pool flip_candidate 1 2 [1, 0, 1, 0, 0] = Some (Inr (flip_candidate, []))
   \<and> changed_genes [(''x'', 0::nat)] [(''x'', 0)] = []"
  by (simp add: mutate_def randint_def flip_pool_def flip_candidate_def changed_genes_def
      numeral_2_eq_2)

subsection \<open>generate\_random\_parent\<close>

lemma assign_allele_result:
  "assign_allele gene allele (Dict d) picks = Some (Inr (gs', picks')) \<Longrightarrow>
     \<exists>v. gs' = Dict (AList.update gene v d) \<and> v \<notin> set (map snd d) \<and> v \<in> set allele"
proof (induction picks)
  case Nil
  then show ?case by (simp split: if_splits)
next
  case (Cons r picks)
  then show ?case
    by (auto simp: Let_def split: if_splits)
qed

lemma assign_allele_Pool:
  "assign_allele gene allele (Pool p) picks \<noteq> Some (Inr res)"
  by (cases picks) auto

lemma not_value_map_of: "v \<notin> set (map snd d) \<Longrightarrow> map_of d g \<noteq> Some v"
  using map_of_SomeD[of d g v] by force

lemma assigned_update:
  assumes "assigned pool P d" and "v \<notin> set (map snd d)" and "(g, allele) \<in> set pool"
    and "v \<in> set allele"
  shows "assigned pool (insert g P) (AList.update g v d)"
  unfolding assigned_def
proof
  fix k assume k: "k \<in> insert g P"
  show "\<exists>w. map_of (AList.update g v d) k = Some w
            \<and> (\<exists>allele. (k, allele) \<in> set pool \<and> w \<in> set allele)
            \<and> (\<forall>g'. g' \<noteq> k \<longrightarrow> map_of (AList.update g v d) g' \<noteq> Some w)"
  proof (cases "k = g")
    case True
    then show ?thesis
      using assms not_value_map_of[OF assms(2)] by (auto simp: update_conv')
  next
    case False
    with k assms(1) obtain w where w: "map_of d k = Some w"
      "\<exists>allele. (k, allele) \<in> set pool \<and> w \<in> set allele"
      "\<forall>g'. g' \<noteq> k \<longrightarrow> map_of d g' \<noteq> Some w"
      unfolding assigned_def by blast
    have "w \<noteq> v" using w(1) not_value_map_of[OF assms(2), of k] by auto
    then show ?thesis using w False by (auto simp: update_conv')
  qed
qed

lemma assign_genes_result:
  "assign_genes items (Dict d) picks = Some (Inr (gs', picks')) \<Longrightarrow> distinct (map fst d) \<Longrightarrow>
   assigned pool P d \<Longrightarrow> set items \<subseteq> set pool \<Longrightarrow>
     \<exists>d'. gs' = Dict d' \<and> distinct (map fst d')
        \<and> set (map fst d') = set (map fst d) \<union> set (map fst items)
        \<and> assigned pool (P \<union> set (map fst items)) d'"
proof (induction items arbitrary: d picks P)
  case Nil
  then show ?case by auto
next
  case (Cons item items)
  obtain gene allele where item: "item = (gene, allele)" by (cases item)
  from Cons.prems(1) item obtain gs1 picks1 where
    a: "assign_allele gene allele (Dict d) picks = Some (Inr (gs1, picks1))"
    and r: "assign_genes items gs1 picks1 = Some (Inr (gs', picks'))"
    by (auto split: option.splits sum.splits)
  from assign_allele_result[OF a] obtain v where
    gs1: "gs1 = Dict (AList.update gene v d)" and v: "v \<notin> set (map snd d)" "v \<in> set allele"
    by blast
  let ?d1 = "AList.update gene v d"
  have d1: "distinct (map fst ?d1)" using Cons.prems(2) by (simp add: distinct_update)
  have "(gene, allele) \<in> set pool" using Cons.prems(4) item by auto
  then have as1: "assigned pool (insert gene P) ?d1"
    using assigned_update[OF Cons.prems(3) v(1) _ v(2)] by blast
  have sub: "set items \<subseteq> set pool" using Cons.prems(4) by auto
  from Cons.IH[OF r[unfolded gs1] d1 as1 sub] obtain d' where
    "gs' = Dict d'" "distinct (map fst d')"
    "set (map fst d') = set (map fst ?d1) \<union> set (map fst items)"
    "assigned pool (insert gene P \<union> set (map fst items)) d'" by blast
  then show ?case using item by (auto simp: dom_update)
qed

lemma assigned_all_distinct_values:
  assumes "distinct (map fst d)" and "assigned pool (set (map fst d)) d"
  shows "distinct (map snd d)"
proof -
  have "inj_on snd (set d)"
  proof (rule inj_onI)
    fix x y assume x: "x \<in> set d" and y: "y \<in> set d" and e: "snd x = snd y"
    obtain k1 v1 where x': "x = (k1, v1)" by (cases x)
    obtain k2 v2 where y': "y = (k2, v2)" by (cases y)
    have m1: "map_of d k1 = Some v1" using assms(1) x x' by simp
    have m2: "map_of d k2 = Some v1" using assms(1) y y' e x' by simp
    have "k1 \<in> set (map fst d)" using x x' by force
    with assms(2) m1 have "\<forall>g'. g' \<noteq> k1 \<longrightarrow> map_of d g' \<noteq> Some v1"
      unfolding assigned_def by fastforce
    with m2 have "k2 = k1" by blast
    then show "x = y" using x' y' e by simp
  qed
  moreover have "distinct d" using assms(1) by (simp add: distinct_map)
  ultimately show ?thesis by (simp add: distinct_map)
qed

lemma generate_loop_result:
  "generate_loop fuel cls pool parent picks = Some (Inr (parent', picks')) \<Longrightarrow>
   genes parent = Dict d \<Longrightarrow> distinct (map fst d) \<Longrightarrow> set (map fst d) \<subseteq> set (map fst pool) \<Longrightarrow>
     \<exists>d'. genes parent' = Dict d' \<and> distinct (map fst d')
        \<and> set (map fst d') = set (map fst pool)
        \<and> assigned pool (set (map fst pool)) d'
        \<and> can_survive cls (genes parent')"
proof (induction fuel arbitrary: parent picks d)
  case 0
  then show ?case by simp
next
  case (Suc fuel)
  from Suc.prems(1,2) obtain gs picks1 where
    a: "assign_genes pool (Dict d) picks = Some (Inr (gs, picks1))"
    and rest: "(if can_survive cls gs
          then Some (Inr (parent\<lparr>genes := gs, cache_attrs := True\<rparr>, picks1))
          else generate_loop fuel cls pool (parent\<lparr>genes := gs\<rparr>) picks1)
        = Some (Inr (parent', picks'))"
    by (auto split: option.splits sum.splits)
  have e: "assigned pool {} d" by (simp add: assigned_def)
  from assign_genes_result[OF a Suc.prems(3) e subset_refl] obtain d1 where
    d1: "gs = Dict d1" "distinct (map fst d1)"
      "set (map fst d1) = set (map fst d) \<union> set (map fst pool)"
      "assigned pool ({} \<union> set (map fst pool)) d1" by blast
  have keys: "set (map fst d1) = set (map fst pool)" using d1(3) Suc.prems(4) by auto
  show ?case
  proof (cases "can_survive cls gs")
    case True
    with rest have "parent' = parent\<lparr>genes := gs, cache_attrs := True\<rparr>" by simp
    then show ?thesis using d1 keys True by auto
  next
    case False
    with rest have "generate_loop fuel cls pool (parent\<lparr>genes := gs\<rparr>) picks1
        = Some (Inr (parent', picks'))" by simp
    from Suc.IH[OF this, of d1] d1 keys show ?thesis by auto
  qed
qed

text \<open>
  Claim C2: when \<open>generate_random_parent\<close> returns, for a candidate class whose new
  candidates hold a dict with no gene outside the names given, the candidate's dict has
  exactly the genes of the pool as keys, each with one allele of its list in the pool, no
  allele is the value of two genes, and \<open>can_survive()\<close> holds.
\<close>

theorem generate_random_parent_valid:
  assumes "generate_random_parent self fuel picks = Some (Inr (parent, picks'))"
    and "genes (from_names (evolvable_class self) (map fst (gene_pool self))) = Dict d0"
    and "distinct (map fst d0)"
    and "set (map fst d0) \<subseteq> set (map fst (gene_pool self))"
  shows "\<exists>d. genes parent = Dict d \<and> distinct (map fst d)
           \<and> set (map fst d) = set (map fst (gene_pool self))
           \<and> (\<forall>g \<in> set (map fst (gene_pool self)).
                \<exists>v allele. map_of d g = Some v \<and> (g, allele) \<in> set (gene_pool self) \<and> v \<in> set allele)
           \<and> distinct (map snd d)
           \<and> can_survive (evolvable_class self) (genes parent)"
proof -
  from generate_loop_result[OF assms(1)[unfolded generate_random_parent_def] assms(2,3,4)]
  obtain d where d: "genes parent = Dict d" "distinct (map fst d)"
    "set (map fst d) = set (map fst (gene_pool self))"
    "assigned (gene_pool self) (set (map fst (gene_pool self))) d"
    "can_survive (evolvable_class self) (genes parent)" by blast
  have "distinct (map snd d)"
    using assigned_all_distinct_values[OF d(2)] d(3,4) by simp
  moreover have "\<forall>g \<in> set (map fst (gene_pool self)).
                \<exists>v allele. map_of d g = Some v \<and> (g, allele) \<in> set (gene_pool self) \<and> v \<in> set allele"
    using d(4) unfolding assigned_def by blast
  ultimately show ?thesis using d by blast
qed

text \<open>
  A run with one retry: the first pass gives \<open>{x: 1, y: 2}\<close> of fitness 3, which cannot
  survive; the second pass over the same candidate gives \<open>{x: 3, y: 1}\<close>.
\<close>

theorem generate_random_parent_valid_witness:
  "generate_random_parent example_engine 2 [0, 0, 1, 2, 0] =
     Some (Inr (\<lparr>genes = Dict [(''x'', 3), (''y'', 1)], cache_attrs = True\<rparr>, []))
   \<and> distinct (map snd [(''x'', 3::nat), (''y'', 1)])
   \<and> can_survive (evolvable_class example_engine) (Dict [(''x'', 3), (''y'', 1)])"
proof -
  have g: "generate_random_parent example_engine 2 [0, 0, 1, 2, 0] =
     Some (Inr (\<lparr>genes = Dict [(''x'', 3), (''y'', 1)], cache_attrs = True\<rparr>, []))"
    by (simp add: generate_random_parent_def evolve_example_defs numeral_2_eq_2)
  have d: "genes (from_names (evolvable_class example_engine) (map fst (gene_pool example_engine)))
             = Dict []"
    by (simp add: evolve_example_defs)
  from generate_random_parent_valid[OF g d] g show ?thesis by simp
qed

subsection \<open>cross\_over\<close>

text \<open>
  The first statement of a pass raises, whatever the engine, the parents and the state
  of the random source; so does \<open>cross_over\<close>, whatever the fuel.
\<close>

lemma cross_over_attempt_raises:
  "cross_over_attempt self h parents picks floats = Some (Inl TypeError)"
  by (simp add: cross_over_attempt_def random_random_def)

lemma cross_over_always_raises:
  "cross_over fuel self h parents picks floats = Some (Inl TypeError)"
  by (cases fuel) (simp_all add: cross_over_attempt_raises)

text \<open>
  Claim C1 says that every attempt of \<open>cross_over\<close> draws a range, chooses a donor,
  builds the child from the donor's entries inside the range and the other parent's
  entries outside it, mutates it once, and that the draw is repeated until the child can
  survive. In the code the first statement of every attempt, \<open>random.random(2)\<close>, raises
  TypeError: no range is drawn, no child is built, and \<open>cross_over\<close> returns no child
  for any engine, any parents and any state of the random source, for instance for the
  two parents holding \<open>gene_pool([1, 2], [0.2, 0.8])\<close> and \<open>gene_pool([3, 4], [0.3, 0.9])\<close>.
\<close>

theorem cross_over_raises:
  "cross_over_attempt self h parents picks floats = Some (Inl TypeError)
   \<and> cross_over fuel self h parents picks floats = Some (Inl TypeError)
   \<and> cross_over 0 example_engine example_heap pool_parents [] [] = Some (Inl TypeError)"
  by (simp add: cross_over_attempt_raises cross_over_always_raises)

subsection \<open>run\<close>

text \<open>
  Claim C9: \<open>run\<close> with a callback and \<open>cb_every\<close> equal to 0, or with a callback and no
  \<open>cb_every\<close>, raises ValueError and leaves the engine as it was, whatever the other
  arguments.
\<close>

theorem run_falsy_cb_every_raises:
  "run self h n n_best n_children (Some 0) (Some cb) fuel picks floats = (Some (Inl ValueError), self)
   \<and> run self h n n_best n_children None (Some cb) fuel picks floats = (Some (Inl ValueError), self)"
  by (simp add: run_def truthy_cb_def truthy_int_def)

lemma generate_random_parents_numeral:
  "generate_random_parents (numeral k) self fuel picks =
     (case generate_random_parent self fuel picks of
        None \<Rightarrow> None
      | Some (Inl e) \<Rightarrow> Some (Inl e)
      | Some (Inr (parent, picks')) \<Rightarrow>
          (case generate_random_parents (pred_numeral k) self fuel picks' of
             None \<Rightarrow> None
           | Some (Inl e) \<Rightarrow> Some (Inl e)
           | Some (Inr (rest, picks'')) \<Rightarrow> Some (Inr (parent # rest, picks''))))"
  by (simp add: numeral_eq_Suc)

lemma seed_population_bound:
  assumes "seed_population self n_children fuel picks = (Some (Inr picks'), self')"
  shows "length (best self') \<le> 5"
proof -
  from assms obtain parents where "self' = set_best (self\<lparr>population := parents\<rparr>) 5"
    by (auto simp: seed_population_def split: option.splits sum.splits)
  then show ?thesis using length_best_set_best[of 5 "self\<lparr>population := parents\<rparr>"] by simp
qed

text \<open>
  A generation loop that runs at least once and completes has \<open>set_best(n_best)\<close> as its
  last step.
\<close>

lemma run_loop_applies_n_best:
  "run_loop is self h n_best n_children cb_every cb fuel picks floats = (Some (Inr ()), self') \<Longrightarrow>
   is \<noteq> [] \<Longrightarrow> 0 \<le> n_best \<Longrightarrow> length (best self') \<le> nat n_best"
proof (induction "is" arbitrary: self picks floats)
  case Nil
  then show ?case by simp
next
  case (Cons i rest)
  from Cons.prems(1) obtain self1 children picks1 floats1 where
    r: "run_loop rest (set_best (self1\<lparr>population := children\<rparr>) n_best) h n_best n_children
          cb_every cb fuel picks1 floats1 = (Some (Inr ()), self')"
    by (auto simp: Let_def split: sum.splits option.splits)
  show ?case
  proof (cases "rest = []")
    case True
    with r have "self' = set_best (self1\<lparr>population := children\<rparr>) n_best" by simp
    then show ?thesis using length_best_set_best[OF Cons.prems(3)] by simp
  next
    case False
    from Cons.IH[OF r False Cons.prems(3)] show ?thesis .
  qed
qed

text \<open>
  With the defaults of \<open>run\<close> the first generation ends in the TypeError of \<open>cross_over\<close>,
  and the engine is left as the seeding step made it.
\<close>

lemma cross_overs_raises:
  "cross_overs (Suc k) fuel self h parents picks floats = Some (Inl TypeError)"
  by (simp add: cross_over_always_raises)

lemma run_first_generation_raises:
  assumes "population self = []" and "0 < n" and "0 < n_children"
    and "seed_population self n_children fuel picks = (Some (Inr picks'), s)"
  shows "run self h n n_best n_children None None fuel picks floats = (Some (Inl TypeError), s)"
proof -
  obtain k where k: "nat n_children = Suc k" using assms(3) by (cases "nat n_children") auto
  obtain m where m: "[0..<nat n] = 0 # m" using assms(2) by (simp add: upt_rec)
  show ?thesis
    using assms(1,4) k m
    by (simp add: run_def truthy_cb_def truthy_int_def call_back_def cross_over_always_raises)
qed

text \<open>
  Claim C10: when \<open>run\<close> is called with an empty population (and \<open>cb\<close>, \<open>cb_every\<close> both
  true or both false), the engine \<open>s\<close> that the seeding step produces has at most 5
  archive entries and is the same for every \<open>n\<close> and \<open>n_best\<close>: \<open>run\<close> is the generation
  loop started from \<open>s\<close>. With no generation to run, \<open>s\<close> is what \<open>run\<close> leaves. When at
  least one generation runs and \<open>run\<close> returns, the archive has at most \<open>n_best\<close> entries
  (\<open>n_best\<close> not negative): the bound \<open>n_best\<close> is applied by the loop.
\<close>

theorem run_seed_archive_bound:
  assumes "population self = []"
    and "truthy_cb cb = truthy_int cb_every"
    and "seed_population self n_children fuel picks = (Some (Inr picks'), s)"
  shows "length (best s) \<le> 5
     \<and> run self h n n_best n_children cb_every cb fuel picks floats
         = run_loop [0..<nat n] s h n_best n_children cb_every cb fuel picks' floats
     \<and> (n \<le> 0 \<longrightarrow>
          run self h n n_best n_children cb_every cb fuel picks floats = (Some (Inr ()), s))
     \<and> (\<forall>self'. 0 < n \<and> 0 \<le> n_best
            \<and> run self h n n_best n_children cb_every cb fuel picks floats = (Some (Inr ()), self')
          \<longrightarrow> length (best self') \<le> nat n_best)"
proof -
  have b: "length (best s) \<le> 5" using assms(3) by (rule seed_population_bound)
  have r: "run self h n n_best n_children cb_every cb fuel picks floats
         = run_loop [0..<nat n] s h n_best n_children cb_every cb fuel picks' floats"
    using assms by (auto simp: run_def)
  have z: "run self h n n_best n_children cb_every cb fuel picks floats = (Some (Inr ()), s)"
    if "n \<le> 0"
    using that r by simp
  have l: "length (best self') \<le> nat n_best"
    if "0 < n" "0 \<le> n_best"
      "run self h n n_best n_children cb_every cb fuel picks floats = (Some (Inr ()), self')"
    for self'
  proof -
    have "[0..<nat n] \<noteq> []" using that(1) by simp
    from run_loop_applies_n_best[OF that(3)[unfolded r] this that(2)] show ?thesis .
  qed
  show ?thesis using b r z l by blast
qed

text \<open>
  Three runs. From a cleared population and an archive of seven, with \<open>n_best = 2\<close>, no
  children and one generation: the seeding step leaves five entries, the generation
  two. With \<open>n_best = 10\<close>, seven children, all different and all able to survive, and no
  generation: the archive holds the best five. With \<open>n_best = 2\<close>, the same seven children
  and one generation: the generation raises and the archive is left with five entries.
\<close>

theorem run_seed_archive_bound_witness:
  "(\<exists>s self'. population archive_engine = []
       \<and> seed_population archive_engine 0 1 [] = (Some (Inr []), s)
       \<and> map genes (best s) =
            [Dict [(''x'', 10)], Dict [(''x'', 9)], Dict [(''x'', 8)], Dict [(''x'', 7)],
             Dict [(''x'', 6)]]
       \<and> run archive_engine example_heap 1 2 0 None None 1 [] [] = (Some (Inr ()), self')
       \<and> map genes (best self') = [Dict [(''x'', 10)], Dict [(''x'', 9)]]
       \<and> length (best s) \<le> 5 \<and> length (best self') \<le> nat 2)
   \<and> (\<exists>s. population seed_engine = []
       \<and> seed_population seed_engine 7 1 [0, 1, 2, 3, 4, 5, 6] = (Some (Inr []), s)
       \<and> run seed_engine example_heap 0 10 7 None None 1 [0, 1, 2, 3, 4, 5, 6] []
            = (Some (Inr ()), s)
       \<and> map genes (best s) =
            [Dict [(''x'', 10)], Dict [(''x'', 9)], Dict [(''x'', 8)], Dict [(''x'', 7)],
             Dict [(''x'', 6)]]
       \<and> length (best s) \<le> 5)
   \<and> (\<exists>s. seed_population seed_engine 7 1 [0, 1, 2, 3, 4, 5, 6] = (Some (Inr []), s)
       \<and> run seed_engine example_heap 1 2 7 None None 1 [0, 1, 2, 3, 4, 5, 6] []
            = (Some (Inl TypeError), s)
       \<and> length (best s) = 5)"
proof -
  let ?cb = "None :: ((string, nat, real, nat, (string, nat) genes_obj) evolve \<Rightarrow> int
                      \<Rightarrow> (string, nat, real, nat, (string, nat) genes_obj) evolve) option"
  have t: "truthy_cb ?cb = truthy_int None" by (simp add: truthy_cb_def truthy_int_def)
  \<comment> \<open>a cleared population, an archive of seven, no children, one generation, n_best = 2\<close>
  have pa: "population archive_engine = []" by (simp add: evolve_example_defs)
  obtain sa where sa: "sa = set_best (archive_engine\<lparr>population := []\<rparr>) 5" by blast
  have seed_a: "seed_population archive_engine 0 1 [] = (Some (Inr []), sa)"
    using sa by (simp add: seed_population_def)
  have best_a: "map genes (best sa) =
            [Dict [(''x'', 10)], Dict [(''x'', 9)], Dict [(''x'', 8)], Dict [(''x'', 7)],
             Dict [(''x'', 6)]]"
    using sa by (simp add: set_best_def Let_def sorted_reverse_def slice_to_def evolve_example_defs)
  note ta = run_seed_archive_bound[OF pa t seed_a, of example_heap 1 2 "[]"]
  obtain ra self' where run_a:
    "run archive_engine example_heap 1 2 0 None None 1 [] ([] :: real list) = (ra, self')"
    by (cases "run archive_engine example_heap 1 2 0 None ?cb 1 [] ([] :: real list)")
  have self': "self' = set_best (sa\<lparr>population := []\<rparr>) 2" and ra: "ra = Some (Inr ())"
    using run_a ta by (simp_all add: call_back_def)
  have best_a': "map genes (best self') = [Dict [(''x'', 10)], Dict [(''x'', 9)]]"
    using self' sa
    by (simp add: set_best_def Let_def sorted_reverse_def slice_to_def evolve_example_defs)
  have bound_a: "length (best sa) \<le> 5 \<and> length (best self') \<le> nat 2"
    using ta run_a ra by simp
  \<comment> \<open>seven children, no generation, n_best = 10\<close>
  have ps: "population seed_engine = []" by (simp add: evolve_example_defs)
  have g: "generate_random_parents 7 seed_engine 1 [0, 1, 2, 3, 4, 5, 6] =
     Some (Inr (map (\<lambda>v. \<lparr>genes = Dict [(''x'', v)], cache_attrs = True\<rparr>) [4, 5, 6, 7, 8, 9, 10], []))"
    by (simp add: generate_random_parents_numeral generate_random_parent_def evolve_example_defs)
  obtain ss where ss: "ss = set_best (seed_engine\<lparr>population :=
       map (\<lambda>v. \<lparr>genes = Dict [(''x'', v)], cache_attrs = True\<rparr>) [4, 5, 6, 7, 8, 9, 10]\<rparr>) 5"
    by blast
  have seed_s: "seed_population seed_engine 7 1 [0, 1, 2, 3, 4, 5, 6] = (Some (Inr []), ss)"
    using g ss by (simp add: seed_population_def)
  have best_s: "map genes (best ss) =
            [Dict [(''x'', 10)], Dict [(''x'', 9)], Dict [(''x'', 8)], Dict [(''x'', 7)],
             Dict [(''x'', 6)]]"
    using ss by (simp add: set_best_def Let_def sorted_reverse_def slice_to_def evolve_example_defs)
  note ts = run_seed_archive_bound[OF ps t seed_s, of example_heap 0 10 "[]"]
  have run_s: "run seed_engine example_heap 0 10 7 None None 1 [0, 1, 2, 3, 4, 5, 6] []
            = (Some (Inr ()), ss)"
    using ts by simp
  have bound_s: "length (best ss) \<le> 5" using ts by simp
  have run_a': "run archive_engine example_heap 1 2 0 None None 1 [] [] = (Some (Inr ()), self')"
    using run_a ra by simp
  have first: "population archive_engine = []
       \<and> seed_population archive_engine 0 1 [] = (Some (Inr []), sa)
       \<and> map genes (best sa) =
            [Dict [(''x'', 10)], Dict [(''x'', 9)], Dict [(''x'', 8)], Dict [(''x'', 7)],
             Dict [(''x'', 6)]]
       \<and> run archive_engine example_heap 1 2 0 None None 1 [] [] = (Some (Inr ()), self')
       \<and> map genes (best self') = [Dict [(''x'', 10)], Dict [(''x'', 9)]]
       \<and> length (best sa) \<le> 5 \<and> length (best self') \<le> nat 2"
    using pa seed_a best_a run_a' best_a' bound_a by (intro conjI) simp_all
  have second: "population seed_engine = []
       \<and> seed_population seed_engine 7 1 [0, 1, 2, 3, 4, 5, 6] = (Some (Inr []), ss)
       \<and> run seed_engine example_heap 0 10 7 None None 1 [0, 1, 2, 3, 4, 5, 6] []
            = (Some (Inr ()), ss)
       \<and> map genes (best ss) =
            [Dict [(''x'', 10)], Dict [(''x'', 9)], Dict [(''x'', 8)], Dict [(''x'', 7)],
             Dict [(''x'', 6)]]
       \<and> length (best ss) \<le> 5"
    using ps seed_s run_s best_s bound_s by (intro conjI) simp_all
  note tc = run_seed_archive_bound[OF ps t seed_s, of example_heap 1 2 "[]"]
  have run_c: "run seed_engine example_heap 1 2 7 None None 1 [0, 1, 2, 3, 4, 5, 6] []
            = (Some (Inl TypeError), ss)"
    using tc by (simp add: call_back_def numeral_eq_Suc cross_over_always_raises)
  have "length (map genes (best ss)) = 5" unfolding best_s by simp
  then have len_s: "length (best ss) = 5" by simp
  have third: "seed_population seed_engine 7 1 [0, 1, 2, 3, 4, 5, 6] = (Some (Inr []), ss)
       \<and> run seed_engine example_heap 1 2 7 None None 1 [0, 1, 2, 3, 4, 5, 6] []
            = (Some (Inl TypeError), ss)
       \<and> length (best ss) = 5"
    using seed_s run_c len_s by (intro conjI)
  show ?thesis
  proof (intro conjI)
    show "\<exists>s self'. population archive_engine = []
       \<and> seed_population archive_engine 0 1 [] = (Some (Inr []), s)
       \<and> map genes (best s) =
            [Dict [(''x'', 10)], Dict [(''x'', 9)], Dict [(''x'', 8)], Dict [(''x'', 7)],
             Dict [(''x'', 6)]]
       \<and> run archive_engine example_heap 1 2 0 None None 1 [] [] = (Some (Inr ()), self')
       \<and> map genes (best self') = [Dict [(''x'', 10)], Dict [(''x'', 9)]]
       \<and> length (best s) \<le> 5 \<and> length (best self') \<le> nat 2"
      using first by (rule_tac x = sa in exI, rule_tac x = self' in exI)
  next
    show "\<exists>s. population seed_engine = []
       \<and> seed_population seed_engine 7 1 [0, 1, 2, 3, 4, 5, 6] = (Some (Inr []), s)
       \<and> run seed_engine example_heap 0 10 7 None None 1 [0, 1, 2, 3, 4, 5, 6] []
            = (Some (Inr ()), s)
       \<and> map genes (best s) =
            [Dict [(''x'', 10)], Dict [(''x'', 9)], Dict [(''x'', 8)], Dict [(''x'', 7)],
             Dict [(''x'', 6)]]
       \<and> length (best s) \<le> 5"
      using second by (rule_tac x = ss in exI)
  next
    show "\<exists>s. seed_population seed_engine 7 1 [0, 1, 2, 3, 4, 5, 6] = (Some (Inr []), s)
       \<and> run seed_engine example_heap 1 2 7 None None 1 [0, 1, 2, 3, 4, 5, 6] []
            = (Some (Inl TypeError), s)
       \<and> length (best s) = 5"
      using third by (rule_tac x = ss in exI)
  qed
qed

end
